theory Spec2Isabelle
  imports Complex_Main "HOL-Library.Sublist" "HOL-Library.AList"
begin

section \<open>The background backup thread of the borgmatic tray application\<close>

text \<open>
  A shallow embedding of \<^verbatim>\<open>src/backups.py\<close> (class \<^verbatim>\<open>BackgroundBackupThread\<close>),
  \<^verbatim>\<open>src/queue_requests.py\<close> and the part of \<^verbatim>\<open>src/configuration.py\<close> the thread reads.
  The object's attributes, the two queues, the file system, standard output and the
  record of what was asked of the operating system (processes launched, sleeps) form
  one explicit state; an exception is a value of type \<open>exn\<close> returned together with the
  state reached when it was raised.
\<close>

subsection \<open>Strings\<close>

text \<open>
  Python \<^verbatim>\<open>str\<close> is modelled by \<open>string\<close>; \<^verbatim>\<open>a in b\<close> on strings is \<open>sublist a b\<close>,
  \<^verbatim>\<open>b.endswith(a)\<close> is \<open>suffix a b\<close>.
\<close>

definition NL :: string where
  "NL = [CHR 0x0A]"

definition BSL :: string where
  "BSL = [CHR 0x5C]"

definition digit_char :: "nat \<Rightarrow> char" where
  "digit_char d = char_of (48 + d)"

fun str_nat :: "nat \<Rightarrow> string" where
  "str_nat n = (if n < 10 then [digit_char n] else str_nat (n div 10) @ [digit_char (n mod 10)])"

declare str_nat.simps [simp del]

definition str_int :: "int \<Rightarrow> string" where
  "str_int i = (if i < 0 then CHR ''-'' # str_nat (nat (- i)) else str_nat (nat i))"

text \<open>The format \<^verbatim>\<open>{n:02}\<close> of a non-negative integer: at least two digits.\<close>

definition fmt_02 :: "nat \<Rightarrow> string" where
  "fmt_02 n = (if n < 10 then CHR ''0'' # str_nat n else str_nat n)"

text \<open>\<^verbatim>\<open>sep.join(xs)\<close>.\<close>

fun join :: "string \<Rightarrow> string list \<Rightarrow> string" where
  "join sep [] = []"
| "join sep [x] = x"
| "join sep (x # y # ys) = x @ sep @ join sep (y # ys)"

text \<open>
  The white space of \<^verbatim>\<open>str.split()\<close> and \<^verbatim>\<open>str.strip()\<close> among the ASCII characters:
  tab, line feed, vertical tab, form feed, carriage return, the separators 0x1C to 0x1F
  and the space.
\<close>

definition is_space :: "char \<Rightarrow> bool" where
  "is_space c = (c \<in> set [CHR 0x09, CHR 0x0A, CHR 0x0B, CHR 0x0C, CHR 0x0D,
                             CHR 0x1C, CHR 0x1D, CHR 0x1E, CHR 0x1F, CHR 0x20])"

definition strip :: "string \<Rightarrow> string" where
  "strip s = rev (dropWhile is_space (rev (dropWhile is_space s)))"

definition lower_char :: "char \<Rightarrow> char" where
  "lower_char c =
     (if (65::nat) \<le> of_char c \<and> of_char c \<le> (90::nat) then char_of (of_char c + (32::nat)) else c)"

definition lower :: "string \<Rightarrow> string" where
  "lower s = map lower_char s"

subsection \<open>Data model\<close>

text \<open>\<^verbatim>\<open>class TaskStatus(Enum)\<close>.\<close>

datatype TaskStatus = NOT_STARTED | RUNNING | FINISHED | FAILED | CANCEL_REQUESTED

text \<open>
  A \<^verbatim>\<open>pathlib.Path\<close> of the configuration: an absolute Windows path, its drive
  (\<^verbatim>\<open>"C:"\<close>) and the components after the anchor (\<^verbatim>\<open>path.parts[1:]\<close>).
\<close>

record wpath =
  drive :: string
  comps :: "string list"

definition str_path :: "wpath \<Rightarrow> string" where
  "str_path p = drive p @ BSL @ join BSL (comps p)"

text \<open>\<^verbatim>\<open>class BackupConfiguration\<close>.\<close>

record BackupConfiguration =
  name :: string
  icon :: string
  config_file :: wpath
  wsl_distro :: string
  backup_schedule_hours :: nat
  log_file :: wpath
  report_files :: wpath
  report_paths :: wpath
  report_excluded :: wpath
  report_errors :: wpath
  diff_file :: wpath
  post_backup_script :: wpath
  post_backup_wsl_distro :: string
  post_backup_schedule_hours :: nat
  backup_line_count_file :: wpath

text \<open>
  The request classes of \<^verbatim>\<open>queue_requests.py\<close>. A queue holds arbitrary objects;
  \<open>Unknown\<close> stands for an object of any other class, with the name of its type.
\<close>

datatype request =
    StartBackup BackupConfiguration bool
  | StartPostBackup BackupConfiguration bool
  | CancelBackup BackupConfiguration
  | CancelPostBackup BackupConfiguration
  | EnableScheduledBackups BackupConfiguration
  | DisableScheduledBackups BackupConfiguration
  | AnalyzeLogs BackupConfiguration string
  | DiffLastBackups BackupConfiguration string
  | UpdateSystray "string option" "string option"
  | Exit
  | Unknown string

text \<open>
  A job of the \<^verbatim>\<open>schedule\<close> library as \<^verbatim>\<open>enable_scheduled_backups\<close> registers it:
  every \<open>every_hours\<close> hours at minute \<open>at_minute\<close>, put \<open>enqueues\<close> on the input queue;
  tagged with the configuration's name.
\<close>

record job =
  tag :: string
  every_hours :: nat
  at_minute :: nat
  enqueues :: request

text \<open>
  The state. \<open>task_status\<close> is the \<^verbatim>\<open>defaultdict\<close>, an association list in insertion
  order (the order \<^verbatim>\<open>items()\<close> iterates in). \<open>clock\<close> is the time in milliseconds;
  \<open>printed\<close> is standard output, each line with the clock reading \<^verbatim>\<open>output\<close> prefixes
  it with. \<open>files\<close> maps the string of a path to the text of the file there.
  \<open>launched\<close> lists the command lines \<^verbatim>\<open>subprocess.Popen\<close> started a process for,
  \<open>piped\<close> the lines \<^verbatim>\<open>readline\<close> returned from such a process (\<open>None\<close> for bytes that
  are not UTF-8), \<open>sleeps\<close> the arguments of \<^verbatim>\<open>sleep\<close> in seconds, \<open>threads\<close> the
  requests a worker thread was started for, \<open>jobs\<close> the scheduler's registered jobs.
\<close>

record state =
  task_status :: "(string \<times> TaskStatus) list"
  last_sent_icon :: "string option"
  input_queue :: "request list"
  output_queue :: "request list"
  printed :: "(nat \<times> string) list"
  files :: "string \<rightharpoonup> string"
  clock :: nat
  sleeps :: "nat list"
  launched :: "string list"
  piped :: "string option list"
  threads :: "request list"
  jobs :: "job list"

subsection \<open>Status table\<close>

text \<open>
  Reading \<^verbatim>\<open>self.task_status[k]\<close> of the \<^verbatim>\<open>defaultdict\<close> inserts \<open>NOT_STARTED\<close> under a
  missing key; \<open>status_of\<close> is the value read, \<open>touch\<close> the table after the read.
\<close>

definition status_of :: "(string \<times> TaskStatus) list \<Rightarrow> string \<Rightarrow> TaskStatus" where
  "status_of ts k = (case map_of ts k of None \<Rightarrow> NOT_STARTED | Some v \<Rightarrow> v)"

definition touch :: "string \<Rightarrow> (string \<times> TaskStatus) list \<Rightarrow> (string \<times> TaskStatus) list" where
  "touch k ts = (case map_of ts k of None \<Rightarrow> ts @ [(k, NOT_STARTED)] | Some v \<Rightarrow> ts)"

text \<open>\<^verbatim>\<open>self.task_status[k] = v\<close>: in place under a present key, appended otherwise.\<close>

definition set_status :: "string \<Rightarrow> TaskStatus \<Rightarrow> state \<Rightarrow> state" where
  "set_status k v s = s\<lparr>task_status := AList.update k v (task_status s)\<rparr>"

text \<open>\<^verbatim>\<open>task_is_running\<close>: the value, and the state after the read.\<close>

definition is_active :: "TaskStatus \<Rightarrow> bool" where
  "is_active st = (case st of RUNNING \<Rightarrow> True | CANCEL_REQUESTED \<Rightarrow> True | _ \<Rightarrow> False)"

definition task_is_running :: "string \<Rightarrow> state \<Rightarrow> bool \<times> state" where
  "task_is_running task_title s =
     (is_active (status_of (task_status s) task_title),
      s\<lparr>task_status := touch task_title (task_status s)\<rparr>)"

subsection \<open>Status and icon publisher\<close>

text \<open>
  The icon \<^verbatim>\<open>update_systray\<close> chooses from the first running task: the body of the
  \<^verbatim>\<open>for\<close> loop up to its \<^verbatim>\<open>break\<close>. No branch assigns when the title holds none of
  the four words, and the icon stays \<^verbatim>\<open>None\<close>.
\<close>

definition running_icon :: "string \<Rightarrow> string option" where
  "running_icon task =
     (if sublist ''post-backup'' task then Some ''./icons/post-backup.ico''
      else if sublist ''backup'' task then Some ''./icons/backup.ico''
      else if sublist ''analysis'' task then Some ''./icons/analyze.ico''
      else if sublist ''diff'' task then Some ''./icons/logs.ico''
      else None)"

fun first_running :: "(string \<times> TaskStatus) list \<Rightarrow> string option" where
  "first_running [] = None"
| "first_running ((task, status) # rest) =
     (if status = RUNNING then Some task else first_running rest)"

definition auto_icon :: "(string \<times> TaskStatus) list \<Rightarrow> string option" where
  "auto_icon ts =
     (if FAILED \<in> set (map snd ts) then Some ''./icons/error.ico''
      else if RUNNING \<in> set (map snd ts) then
        (case first_running ts of None \<Rightarrow> None | Some task \<Rightarrow> running_icon task)
      else if FINISHED \<in> set (map snd ts) then Some ''./icons/success.ico''
      else Some ''./icons/drive.ico'')"

definition update_systray :: "string option \<Rightarrow> string option \<Rightarrow> state \<Rightarrow> state" where
  "update_systray hover_text icon_arg s =
     (let icon1 = (if icon_arg = None then auto_icon (task_status s) else icon_arg);
          icon2 = (if icon1 = last_sent_icon s then None else icon1);
          s1 = (if icon1 = last_sent_icon s then s else s\<lparr>last_sent_icon := icon1\<rparr>)
      in s1\<lparr>output_queue := output_queue s1 @ [UpdateSystray hover_text icon2]\<rparr>)"

text \<open>\<^verbatim>\<open>output\<close>: print the line with the time, then update the tray with it.\<close>

definition output_line :: "string \<Rightarrow> state \<Rightarrow> state" where
  "output_line line s = update_systray (Some line) None (s\<lparr>printed := printed s @ [(clock s, line)]\<rparr>)"

subsection \<open>Exceptions\<close>

text \<open>
  The exceptions the modelled code can meet, each with the text of \<^verbatim>\<open>str(ex)\<close>:
  \<open>CalledProcessError\<close> with the return code and the command, the others with their
  message. \<open>format_exc\<close> is the traceback without its stack frames.
\<close>

datatype exn =
    CalledProcessError int string
  | FileNotFoundError string
  | OSError string
  | ValueError string
  | TypeError string
  | UnicodeDecodeError string

definition is_CalledProcessError :: "exn \<Rightarrow> bool" where
  "is_CalledProcessError ex = (case ex of CalledProcessError rc cmd \<Rightarrow> True | _ \<Rightarrow> False)"

definition str_exn :: "exn \<Rightarrow> string" where
  "str_exn ex =
     (case ex of
        CalledProcessError rc cmd \<Rightarrow>
          ''Command '' @ cmd @ '' returned non-zero exit status '' @ str_int rc @ ''.''
      | FileNotFoundError m \<Rightarrow> m
      | OSError m \<Rightarrow> m
      | ValueError m \<Rightarrow> m
      | TypeError m \<Rightarrow> m
      | UnicodeDecodeError m \<Rightarrow> m)"

definition class_name :: "exn \<Rightarrow> string" where
  "class_name ex =
     (case ex of
        CalledProcessError rc cmd \<Rightarrow> ''subprocess.CalledProcessError''
      | FileNotFoundError m \<Rightarrow> ''FileNotFoundError''
      | OSError m \<Rightarrow> ''OSError''
      | ValueError m \<Rightarrow> ''ValueError''
      | TypeError m \<Rightarrow> ''TypeError''
      | UnicodeDecodeError m \<Rightarrow> ''UnicodeDecodeError'')"

definition format_exc :: "exn \<Rightarrow> string" where
  "format_exc ex =
     ''Traceback (most recent call last):'' @ NL @ class_name ex @ '': '' @ str_exn ex @ NL"

subsection \<open>Files\<close>

text \<open>
  The file system holds regular files only. \<^verbatim>\<open>Path.unlink\<close> and \<^verbatim>\<open>shutil.move\<close> raise
  \<^verbatim>\<open>FileNotFoundError\<close> on a missing source; a move replaces what is at the destination.
\<close>

definition path_exists :: "state \<Rightarrow> string \<Rightarrow> bool" where
  "path_exists s p = (files s p \<noteq> None)"

definition unlink :: "string \<Rightarrow> state \<Rightarrow> exn \<times> state + state" where
  "unlink p s =
     (case files s p of
        None \<Rightarrow> Inl (FileNotFoundError p, s)
      | Some c \<Rightarrow> Inr (s\<lparr>files := (files s)(p := None)\<rparr>))"

definition move :: "string \<Rightarrow> string \<Rightarrow> state \<Rightarrow> exn \<times> state + state" where
  "move src dst s =
     (case files s src of
        None \<Rightarrow> Inl (FileNotFoundError src, s)
      | Some c \<Rightarrow> Inr (s\<lparr>files := ((files s)(src := None))(dst \<mapsto> c)\<rparr>))"

text \<open>\<^verbatim>\<open>path.name\<close>, \<^verbatim>\<open>path.parent\<close> and \<^verbatim>\<open>path / child\<close> for a one-component child.\<close>

definition path_name :: "wpath \<Rightarrow> string" where
  "path_name p = (if comps p = [] then [] else last (comps p))"

definition path_parent :: "wpath \<Rightarrow> wpath" where
  "path_parent p = p\<lparr>comps := butlast (comps p)\<rparr>"

definition path_div :: "wpath \<Rightarrow> string \<Rightarrow> wpath" where
  "path_div p child = p\<lparr>comps := comps p @ [child]\<rparr>"

subsection \<open>Log rotator\<close>

text \<open>The loop \<^verbatim>\<open>for i in range(8, 0, -1)\<close> of \<^verbatim>\<open>rotate_logs\<close>, over the list of its indices.\<close>

fun rotate_loop :: "wpath \<Rightarrow> nat list \<Rightarrow> state \<Rightarrow> exn \<times> state + state" where
  "rotate_loop logf [] s = Inr s"
| "rotate_loop logf (i # rest) s =
     (if path_exists s (str_path (path_div (path_parent logf) (path_name logf @ ''.'' @ str_nat i)))
      then (case move (str_path logf @ ''.'' @ str_nat i)
                      (str_path logf @ ''.'' @ str_nat (i + 1)) s of
              Inl e \<Rightarrow> Inl e
            | Inr s1 \<Rightarrow> rotate_loop logf rest s1)
      else rotate_loop logf rest s)"

definition rotate_logs :: "wpath \<Rightarrow> state \<Rightarrow> exn \<times> state + state" where
  "rotate_logs logf s =
     (case (if path_exists s (str_path (path_div (path_parent logf) (path_name logf @ ''.9'')))
            then unlink (str_path (path_div (path_parent logf) (path_name logf @ ''.9''))) s
            else Inr s) of
        Inl e \<Rightarrow> Inl e
      | Inr s1 \<Rightarrow>
          (case rotate_loop logf (rev [1..<9]) s1 of
             Inl e \<Rightarrow> Inl e
           | Inr s2 \<Rightarrow>
               if path_exists s2 (str_path logf)
               then move (str_path logf) (str_path logf @ ''.1'') s2
               else Inr s2))"

subsection \<open>Persisted line count\<close>

text \<open>
  \<^verbatim>\<open>int(text)\<close>: white space around, an optional sign, then decimal digits, single
  underscores allowed between digits; anything else raises \<^verbatim>\<open>ValueError\<close>.
\<close>

definition is_digit :: "char \<Rightarrow> bool" where
  "is_digit c = ((48::nat) \<le> of_char c \<and> of_char c \<le> (57::nat))"

fun digits_ok :: "string \<Rightarrow> bool" where
  "digits_ok [] = False"
| "digits_ok [c] = is_digit c"
| "digits_ok (c # d # rest) =
     (is_digit c \<and> (if d = CHR ''_'' then digits_ok rest else digits_ok (d # rest)))"

definition digits_value :: "string \<Rightarrow> nat" where
  "digits_value ds = foldl (\<lambda>acc c. 10 * acc + (of_char c - 48)) 0 (filter is_digit ds)"

definition py_int :: "string \<Rightarrow> int option" where
  "py_int text =
     (let t = strip text;
          neg = (t \<noteq> [] \<and> hd t = CHR ''-'');
          body = (if t \<noteq> [] \<and> (hd t = CHR ''-'' \<or> hd t = CHR ''+'') then tl t else t)
      in if digits_ok body
         then Some (if neg then - int (digits_value body) else int (digits_value body))
         else None)"

definition save_line_count :: "wpath \<Rightarrow> nat \<Rightarrow> state \<Rightarrow> state" where
  "save_line_count line_count_file line_count s =
     s\<lparr>files := (files s)(str_path line_count_file \<mapsto> str_nat line_count)\<rparr>"

definition load_line_count :: "wpath \<Rightarrow> state \<Rightarrow> exn \<times> state + int" where
  "load_line_count line_count_file s =
     (case files s (str_path line_count_file) of
        None \<Rightarrow> Inr 0
      | Some text \<Rightarrow>
          (case py_int text of
             None \<Rightarrow> Inl (ValueError (''invalid literal for int() with base 10: '' @ text), s)
           | Some n \<Rightarrow> Inr n))"

subsection \<open>External processes\<close>

text \<open>
  What a worker sees of the process it started, as a finite tree. \<open>Writes pz raw p q\<close>:
  after the pause \<open>pz\<close> \<^verbatim>\<open>readline\<close> returns a line, \<open>raw\<close> its text (\<open>None\<close> when the
  bytes are not UTF-8); the process goes on as \<open>q\<close> if \<^verbatim>\<open>terminate()\<close> was called while
  this line was handled and as \<open>p\<close> otherwise. \<open>Returns pz rc\<close>: after the pause
  \<open>pz\<close> the output has ended and the process has exited with return code \<open>rc\<close>.
  A pause lasts \<open>waited\<close> milliseconds, and \<open>meanwhile\<close> lists the assignments
  \<^verbatim>\<open>self.task_status[k] = v\<close> the other threads made during it. A process that never
  exits is outside this model.
\<close>

record pause =
  waited :: nat
  meanwhile :: "(string \<times> TaskStatus) list"

datatype proc =
    Returns pause int
  | Writes pause "string option" proc proc

text \<open>
  \<^verbatim>\<open>shlex_split\<close> and \<^verbatim>\<open>subprocess.Popen\<close> together: the command line either fails to
  start (an exception) or starts a process.
\<close>

type_synonym spawner = "string \<Rightarrow> exn + proc"

definition after_pause :: "pause \<Rightarrow> state \<Rightarrow> state" where
  "after_pause pz s =
     s\<lparr>clock := clock s + waited pz,
       task_status := foldl (\<lambda>ts (k, v). AList.update k v ts) (task_status s) (meanwhile pz)\<rparr>"

text \<open>A process that writes the given lines whether asked to terminate or not.\<close>

fun script :: "(pause \<times> string option) list \<Rightarrow> pause \<Rightarrow> int \<Rightarrow> proc" where
  "script [] pz rc = Returns pz rc"
| "script ((lz, raw) # rest) pz rc = Writes lz raw (script rest pz rc) (script rest pz rc)"

subsection \<open>Process supervisor\<close>

text \<open>\<^verbatim>\<open>to_wsl_path\<close>; \<^verbatim>\<open>PurePosixPath()\<close> of no components is \<^verbatim>\<open>"."\<close>.\<close>

definition to_wsl_path :: "wpath \<Rightarrow> string" where
  "to_wsl_path p =
     ''/mnt/'' @ lower (filter (\<lambda>c. c \<noteq> CHR '':'') (drive p)) @ ''/'' @
     (if comps p = [] then ''.'' else join ''/'' (comps p))"

text \<open>
  \<^verbatim>\<open>minutes, seconds = divmod(int(elapsed_time), 60)\<close> and
  \<^verbatim>\<open>f"{minutes}:{seconds:02}s"\<close>, from the elapsed milliseconds.
\<close>

definition time_string :: "nat \<Rightarrow> string" where
  "time_string elapsed_ms =
     str_nat ((elapsed_ms div 1000) div 60) @ '':'' @ fmt_02 ((elapsed_ms div 1000) mod 60) @ ''s''"

text \<open>
  \<^verbatim>\<open>datetime.now().strftime('%I:%M %p')\<close>, the clock counting from a local midnight.
\<close>

definition strftime_I_M_p :: "nat \<Rightarrow> string" where
  "strftime_I_M_p t =
     (let h = (t div 3600000) mod 24; m = (t div 60000) mod 60
      in fmt_02 (if h mod 12 = 0 then 12 else h mod 12) @ '':'' @ fmt_02 m @ '' '' @
         (if h < 12 then ''AM'' else ''PM''))"

text \<open>
  The format \<^verbatim>\<open>.2f\<close> of the quotient \<open>num / den\<close> for \<open>den > 0\<close>, computed on the exact
  quotient and rounded half to even (Python rounds the nearest float of it).
\<close>

definition round_half_even :: "int \<Rightarrow> int \<Rightarrow> int" where
  "round_half_even num den =
     (let f = num div den; r = num mod den
      in if 2 * r < den then f else if den < 2 * r then f + 1 else if even f then f else f + 1)"

definition fmt_2f :: "int \<Rightarrow> int \<Rightarrow> string" where
  "fmt_2f num den =
     (let n = round_half_even (100 * \<bar>num\<bar>) den
      in (if num < 0 then [CHR ''-''] else []) @ str_nat (nat (n div 100)) @ ''.'' @
         fmt_02 (nat (n mod 100)))"

text \<open>The stats lines of \<^verbatim>\<open>borg --stats\<close> kept for the final message.\<close>

definition add_stats :: "string \<Rightarrow> string \<Rightarrow> string" where
  "add_stats stats_output line =
     (if sublist ''Number of files: '' line \<or> sublist ''Original size: '' line
         \<or> sublist ''Deduplicated size: '' line
      then (if \<not> (suffix '' 0'' line \<or> suffix '' 0 B'' line) then stats_output @ NL @ line
            else stats_output)
      else stats_output)"

definition progress_text :: "string \<Rightarrow> int \<Rightarrow> nat \<Rightarrow> nat \<Rightarrow> string \<Rightarrow> string" where
  "progress_text title line_count_target elapsed_ms line_count line =
     ''Running '' @ title @ '' ('' @ time_string elapsed_ms @
     (if 0 < line_count_target
      then '', '' @ fmt_2f (100 * int line_count) line_count_target @ ''%''
      else []) @
     ''):'' @ NL @ line"

text \<open>
  The loop \<^verbatim>\<open>for line in iter(process.stdout.readline, b"")\<close> followed by
  \<^verbatim>\<open>process.wait()\<close>: the line count, the stats and the return code. The key
  \<open>title\<close> is in the table when the loop runs, so reading it inserts nothing.
\<close>

fun read_lines ::
  "string \<Rightarrow> int \<Rightarrow> nat \<Rightarrow> proc \<Rightarrow> nat \<Rightarrow> string \<Rightarrow> nat \<Rightarrow> state
     \<Rightarrow> exn \<times> state + (nat \<times> string \<times> int) \<times> state" where
  "read_lines title line_count_target start_time (Returns pz rc) line_count stats_output
       last_update_time s =
     Inr ((line_count, stats_output, rc), after_pause pz s)"
| "read_lines title line_count_target start_time (Writes pz raw p q) line_count stats_output
       last_update_time s =
     (let s1 = (after_pause pz s)\<lparr>piped := piped s @ [raw]\<rparr>;
          terminate = (status_of (task_status s1) title = CANCEL_REQUESTED)
      in case raw of
           None \<Rightarrow> Inl (UnicodeDecodeError ''invalid start byte'', s1)
         | Some text \<Rightarrow>
             (let line = strip text;
                  stats1 = add_stats stats_output line;
                  due = (1000 < clock s1 - last_update_time);
                  s2 = (if due
                        then update_systray
                               (Some (progress_text title line_count_target (clock s1 - start_time)
                                        (line_count + 1) line)) None s1
                        else s1);
                  last1 = (if due then clock s1 else last_update_time)
              in if terminate
                 then read_lines title line_count_target start_time q (line_count + 1) stats1 last1 s2
                 else read_lines title line_count_target start_time p (line_count + 1) stats1 last1 s2))"

text \<open>The rest of the \<^verbatim>\<open>with\<close> block, after \<^verbatim>\<open>process.wait()\<close>.\<close>

definition failed_text :: "string \<Rightarrow> nat \<Rightarrow> int \<Rightarrow> nat \<Rightarrow> string" where
  "failed_text title now rc elapsed_ms =
     ''Failed '' @ title @ '' at '' @ strftime_I_M_p now @ ''!'' @ NL @
     ''Return code: '' @ str_int rc @ '' (in '' @ time_string elapsed_ms @ '')''"

definition finished_text :: "string \<Rightarrow> nat \<Rightarrow> nat \<Rightarrow> string \<Rightarrow> string" where
  "finished_text title now elapsed_ms stats_output =
     ''Finished '' @ title @ '' at '' @ strftime_I_M_p now @ '' in '' @ time_string elapsed_ms @ '':'' @
     (if stats_output \<noteq> [] then NL @ stats_output else [])"

definition process_exited ::
  "string \<Rightarrow> string \<Rightarrow> nat \<Rightarrow> nat \<Rightarrow> string \<Rightarrow> int \<Rightarrow> state \<Rightarrow> exn \<times> state + nat \<times> state" where
  "process_exited title command start_time line_count stats_output rc s =
     (if rc \<noteq> 0
      then Inl (CalledProcessError rc command,
                output_line (failed_text title (clock s) rc (clock s - start_time))
                  (set_status title FAILED s))
      else Inr (line_count,
                output_line (finished_text title (clock s) (clock s - start_time) stats_output)
                  (set_status title FINISHED s)))"

definition run_process_and_update_systray ::
  "spawner \<Rightarrow> string \<Rightarrow> string \<Rightarrow> int \<Rightarrow> state \<Rightarrow> exn \<times> state + nat \<times> state" where
  "run_process_and_update_systray popen title command line_count_target s =
     (let s1 = output_line (''Running '' @ title @ '': started'') (set_status title RUNNING s);
          start_time = clock s1
      in case popen command of
           Inl ex \<Rightarrow> Inl (ex, s1)
         | Inr process \<Rightarrow>
             (case read_lines title line_count_target start_time process 0 [] start_time
                     (s1\<lparr>launched := launched s1 @ [command]\<rparr>) of
                Inl e \<Rightarrow> Inl e
              | Inr ((line_count, stats_output, rc), s2) \<Rightarrow>
                  process_exited title command start_time line_count stats_output rc s2))"

subsection \<open>Task handlers\<close>

text \<open>\<^verbatim>\<open>sleep(n)\<close> lets \<open>n\<close> seconds pass.\<close>

definition sleep :: "nat \<Rightarrow> state \<Rightarrow> state" where
  "sleep n s = s\<lparr>sleeps := sleeps s @ [n], clock := clock s + 1000 * n\<rparr>"

definition backup_title :: "BackupConfiguration \<Rightarrow> string" where
  "backup_title config = name config @ '' backup''"

definition post_backup_title :: "BackupConfiguration \<Rightarrow> string" where
  "post_backup_title config = name config @ '' post-backup''"

definition backup_command :: "BackupConfiguration \<Rightarrow> string" where
  "backup_command config =
     ''wsl.exe -d '' @ wsl_distro config @ '' -- PATH=~/.local/bin:$PATH borgmatic '' @
     ''--config '' @ to_wsl_path (config_file config) @ '' --verbosity 1 '' @
     ''--log-file '' @ to_wsl_path (log_file config) @ '' --log-file-verbosity 2''"

definition post_backup_command :: "BackupConfiguration \<Rightarrow> string" where
  "post_backup_command config =
     ''wsl.exe -d '' @ post_backup_wsl_distro config @ '' -- PATH=~/.local/bin:$PATH '' @
     to_wsl_path (post_backup_script config)"

text \<open>
  \<^verbatim>\<open>run_backup\<close> for the request \<^verbatim>\<open>StartBackup(config, is_scheduled)\<close>: first the body of
  its \<^verbatim>\<open>try\<close>, then the two \<^verbatim>\<open>except\<close> clauses around it.
\<close>

definition run_backup_try :: "spawner \<Rightarrow> BackupConfiguration \<Rightarrow> state \<Rightarrow> exn \<times> state + state" where
  "run_backup_try popen config s =
     (case task_is_running (backup_title config) s of
        (True, s1) \<Rightarrow> Inr (output_line (backup_title config @ '' is already running, skipping'') s1)
      | (False, s1) \<Rightarrow>
          (case rotate_logs (log_file config) s1 of
             Inl e \<Rightarrow> Inl e
           | Inr s2 \<Rightarrow>
               (case load_line_count (backup_line_count_file config) s2 of
                  Inl e \<Rightarrow> Inl e
                | Inr backup_lines \<Rightarrow>
                    (case run_process_and_update_systray popen (backup_title config)
                            (backup_command config) backup_lines s2 of
                       Inl e \<Rightarrow> Inl e
                     | Inr (backup_lines1, s3) \<Rightarrow>
                         Inr (save_line_count (backup_line_count_file config) backup_lines1 s3)))))"

definition run_backup :: "spawner \<Rightarrow> BackupConfiguration \<Rightarrow> bool \<Rightarrow> state \<Rightarrow> state" where
  "run_backup popen config is_scheduled s =
     (case run_backup_try popen config s of
        Inr s1 \<Rightarrow> s1
      | Inl (ex, s1) \<Rightarrow>
          if is_CalledProcessError ex then s1
          else output_line (''Error running backup for '' @ name config @ '': '' @ str_exn ex @ NL @
                              format_exc ex)
                 (set_status (backup_title config) FAILED s1))"

text \<open>
  \<^verbatim>\<open>run_post_backup\<close> for the request \<^verbatim>\<open>StartPostBackup(config, is_scheduled)\<close>; the request
  put back on the input queue is that same request.
\<close>

definition run_post_backup_try ::
  "spawner \<Rightarrow> BackupConfiguration \<Rightarrow> bool \<Rightarrow> state \<Rightarrow> exn \<times> state + state" where
  "run_post_backup_try popen config is_scheduled s =
     (let s0 = (if is_scheduled then sleep 10 s else s)
      in case task_is_running (post_backup_title config) s0 of
           (True, s1) \<Rightarrow>
             Inr (output_line (post_backup_title config @ '' is already running, skipping'') s1)
         | (False, s1) \<Rightarrow>
             (case task_is_running (backup_title config) s1 of
                (True, s2) \<Rightarrow>
                  (let s3 = output_line (backup_title config @ '' is still running, delaying '' @
                                           post_backup_title config) s2;
                       s4 = sleep 30 s3
                   in Inr (s4\<lparr>input_queue := input_queue s4 @ [StartPostBackup config is_scheduled]\<rparr>))
              | (False, s2) \<Rightarrow>
                  (case run_process_and_update_systray popen (post_backup_title config)
                          (post_backup_command config) 0 s2 of
                     Inl e \<Rightarrow> Inl e
                   | Inr (n, s3) \<Rightarrow> Inr s3)))"

definition run_post_backup :: "spawner \<Rightarrow> BackupConfiguration \<Rightarrow> bool \<Rightarrow> state \<Rightarrow> state" where
  "run_post_backup popen config is_scheduled s =
     (case run_post_backup_try popen config is_scheduled s of
        Inr s1 \<Rightarrow> s1
      | Inl (ex, s1) \<Rightarrow>
          if is_CalledProcessError ex then s1
          else output_line (''Error running post-backup tasks for '' @ name config @ '': '' @
                              str_exn ex @ NL @ format_exc ex)
                 (set_status (post_backup_title config) FAILED s1))"

definition cancel_backup :: "BackupConfiguration \<Rightarrow> state \<Rightarrow> state" where
  "cancel_backup config s =
     (case task_is_running (backup_title config) s of
        (True, s1) \<Rightarrow>
          output_line (''Cancelled '' @ name config @ '' backup'')
            (set_status (backup_title config) CANCEL_REQUESTED s1)
      | (False, s1) \<Rightarrow> s1)"

definition cancel_post_backup :: "BackupConfiguration \<Rightarrow> state \<Rightarrow> state" where
  "cancel_post_backup config s =
     (case task_is_running (post_backup_title config) s of
        (True, s1) \<Rightarrow>
          output_line (''Cancelled '' @ name config @ '' post-backup tasks'')
            (set_status (post_backup_title config) CANCEL_REQUESTED s1)
      | (False, s1) \<Rightarrow> s1)"

subsection \<open>Scheduler\<close>

text \<open>
  \<^verbatim>\<open>schedule.clear(tag)\<close> drops the jobs with the tag. \<^verbatim>\<open>schedule.run_pending()\<close> runs the
  jobs that are due, each of which puts its request on the input queue; which jobs are
  due is the library's timekeeping, given here by the predicate \<open>is_due\<close>.
\<close>

definition schedule_clear :: "string \<Rightarrow> state \<Rightarrow> state" where
  "schedule_clear t s = s\<lparr>jobs := filter (\<lambda>j. tag j \<noteq> t) (jobs s)\<rparr>"

definition run_pending :: "(job \<Rightarrow> bool) \<Rightarrow> state \<Rightarrow> state" where
  "run_pending is_due s = s\<lparr>input_queue := input_queue s @ map enqueues (filter is_due (jobs s))\<rparr>"

definition enable_scheduled_backups :: "BackupConfiguration \<Rightarrow> state \<Rightarrow> state" where
  "enable_scheduled_backups config s =
     (let s1 = schedule_clear (name config) s;
          s2 = s1\<lparr>jobs := jobs s1 @
                  [\<lparr>tag = name config, every_hours = backup_schedule_hours config, at_minute = 0,
                    enqueues = StartBackup config True\<rparr>]\<rparr>;
          s3 = s2\<lparr>jobs := jobs s2 @
                  [\<lparr>tag = name config, every_hours = post_backup_schedule_hours config, at_minute = 1,
                    enqueues = StartPostBackup config True\<rparr>]\<rparr>
      in output_line (''Enabled scheduled backups for '' @ name config) s3)"

definition disable_scheduled_backups :: "BackupConfiguration \<Rightarrow> state \<Rightarrow> state" where
  "disable_scheduled_backups config s =
     output_line (''Disabled scheduled backups for '' @ name config) (schedule_clear (name config) s)"

subsection \<open>Dispatch loop\<close>

definition queue_exit :: "state \<Rightarrow> state" where
  "queue_exit s =
     s\<lparr>input_queue := input_queue s @ [Exit],
       output_queue := output_queue s @ [Exit],
       task_status := map (\<lambda>(task, st). (task, CANCEL_REQUESTED)) (task_status s)\<rparr>"

text \<open>\<^verbatim>\<open>f"{type(queue_item)}"\<close> for an item none of the \<^verbatim>\<open>case\<close> patterns matches.\<close>

definition APOS :: string where
  "APOS = [CHR 0x27]"

definition type_repr :: "request \<Rightarrow> string" where
  "type_repr item =
     (case item of
        UpdateSystray h i \<Rightarrow> ''<class '' @ APOS @ ''queue_requests.UpdateSystray'' @ APOS @ ''>''
      | Unknown tn \<Rightarrow> ''<class '' @ APOS @ tn @ APOS @ ''>''
      | _ \<Rightarrow> ''<class '' @ APOS @ ''queue_requests'' @ APOS @ ''>'')"

text \<open>
  The \<^verbatim>\<open>match\<close> statement of \<^verbatim>\<open>run\<close>. Starting a worker thread appends the request to
  \<open>threads\<close>; the thread then runs the handler on its own. The result is whether the
  loop \<^verbatim>\<open>break\<close>s.
\<close>

definition dispatch :: "request \<Rightarrow> state \<Rightarrow> exn \<times> state + bool \<times> state" where
  "dispatch queue_item s =
     (case queue_item of
        StartBackup config b \<Rightarrow> Inr (False, s\<lparr>threads := threads s @ [queue_item]\<rparr>)
      | StartPostBackup config b \<Rightarrow> Inr (False, s\<lparr>threads := threads s @ [queue_item]\<rparr>)
      | CancelBackup config \<Rightarrow> Inr (False, cancel_backup config s)
      | CancelPostBackup config \<Rightarrow> Inr (False, cancel_post_backup config s)
      | EnableScheduledBackups config \<Rightarrow> Inr (False, enable_scheduled_backups config s)
      | DisableScheduledBackups config \<Rightarrow> Inr (False, disable_scheduled_backups config s)
      | AnalyzeLogs config editor \<Rightarrow> Inr (False, s\<lparr>threads := threads s @ [queue_item]\<rparr>)
      | DiffLastBackups config editor \<Rightarrow> Inr (False, s\<lparr>threads := threads s @ [queue_item]\<rparr>)
      | Exit \<Rightarrow> Inr (True, queue_exit s)
      | _ \<Rightarrow> Inl (TypeError (''Backup thread got unknown type in input queue: '' @
                               type_repr queue_item), s))"

text \<open>
  One pass through the body of \<^verbatim>\<open>while True\<close>. What the rest of the program does between
  two passes is a \<open>tick\<close>: the jobs that have become due and the requests other threads
  have put on the input queue. An empty queue costs the one second of the timeout.
\<close>

record tick =
  is_due :: "job \<Rightarrow> bool"
  arrivals :: "request list"

datatype outcome = Looping | Exited

definition iteration :: "tick \<Rightarrow> state \<Rightarrow> outcome \<times> state" where
  "iteration tk s =
     (let s1 = run_pending (is_due tk) (s\<lparr>input_queue := input_queue s @ arrivals tk\<rparr>)
      in case input_queue s1 of
           [] \<Rightarrow> (Looping, s1\<lparr>clock := clock s1 + 1000\<rparr>)
         | queue_item # rest \<Rightarrow>
             (case dispatch queue_item (s1\<lparr>input_queue := rest\<rparr>) of
                Inr (True, s2) \<Rightarrow> (Exited, s2)
              | Inr (False, s2) \<Rightarrow> (Looping, s2)
              | Inl (ex, s2) \<Rightarrow>
                  (Looping,
                   update_systray None (Some ''./icons/error.ico'')
                     (output_line (''Error in background backup thread: '' @ str_exn ex @ NL @
                                     format_exc ex) s2))))"

text \<open>
  \<^verbatim>\<open>run\<close> over a finite run of ticks: \<open>Exited\<close> when the loop was left, \<open>Looping\<close> when
  it is still going round after the last tick.
\<close>

fun run_loop :: "tick list \<Rightarrow> state \<Rightarrow> outcome \<times> state" where
  "run_loop [] s = (Looping, s)"
| "run_loop (tk # rest) s =
     (case iteration tk s of
        (Exited, s1) \<Rightarrow> (Exited, output_line ''Exiting background backup thread'' s1)
      | (Looping, s1) \<Rightarrow> run_loop rest s1)"

definition run :: "tick list \<Rightarrow> state \<Rightarrow> outcome \<times> state" where
  "run ticks s = run_loop ticks (output_line ''Background backup thread started'' s)"

subsection \<open>Initial state and example inputs\<close>

text \<open>\<^verbatim>\<open>__init__\<close>: empty queues, an empty table, no icon sent; nothing on disk, time zero.\<close>

definition init_state :: state where
  "init_state =
     \<lparr>task_status = [], last_sent_icon = None, input_queue = [], output_queue = [],
      printed = [], files = Map.empty, clock = 0, sleeps = [], launched = [], piped = [],
      threads = [], jobs = []\<rparr>"

text \<open>A table with one running and one failed task.\<close>

definition running_and_failed :: state where
  "running_and_failed =
     init_state\<lparr>task_status := [(''Alpha backup'', RUNNING), (''Alpha diff'', FAILED)]\<rparr>"

subsection \<open>Log rotation as the specification words it\<close>

text \<open>
  Generation \<open>i\<close> of a log: the log file itself for \<open>i = 0\<close>, the file with the suffix
  \<^verbatim>\<open>.i\<close> otherwise.
\<close>

definition generation :: "wpath \<Rightarrow> nat \<Rightarrow> string" where
  "generation logf i = (if i = 0 then str_path logf else str_path logf @ ''.'' @ str_nat i)"

text \<open>
  The specification's rotation on the files alone: if generation 9 exists, delete it;
  then, for \<open>i\<close> from 8 down to 1, if generation \<open>i\<close> exists, rename it to \<open>i + 1\<close>;
  finally, if the log file exists, rename it to generation 1.
\<close>

definition delete_if_exists :: "string \<Rightarrow> (string \<rightharpoonup> string) \<Rightarrow> (string \<rightharpoonup> string)" where
  "delete_if_exists p f = (if f p \<noteq> None then f(p := None) else f)"

definition rename_if_exists ::
  "string \<Rightarrow> string \<Rightarrow> (string \<rightharpoonup> string) \<Rightarrow> (string \<rightharpoonup> string)" where
  "rename_if_exists src dst f = (case f src of None \<Rightarrow> f | Some c \<Rightarrow> (f(src := None))(dst \<mapsto> c))"

definition rotate_spec :: "wpath \<Rightarrow> (string \<rightharpoonup> string) \<Rightarrow> (string \<rightharpoonup> string)" where
  "rotate_spec logf f =
     rename_if_exists (generation logf 0) (generation logf 1)
       (foldl (\<lambda>f' i. rename_if_exists (generation logf i) (generation logf (i + 1)) f')
          (delete_if_exists (generation logf 9) f) [8, 7, 6, 5, 4, 3, 2, 1])"

text \<open>A log with all ten generations on disk, and its path.\<close>

definition alpha_log :: wpath where
  "alpha_log = \<lparr>drive = ''C:'', comps = [''logs'', ''borgmatic-alpha.log'']\<rparr>"

definition ten_generations :: state where
  "ten_generations =
     init_state\<lparr>files := map_of (map (\<lambda>i. (generation alpha_log i, ''run '' @ str_nat i)) [0..<10])\<rparr>"

text \<open>
  A process that writes three lines 0.4 seconds apart, never disturbed by other
  threads, and exits with the given code whether asked to terminate or not.
\<close>

definition quiet :: pause where
  "quiet = \<lparr>waited = 400, meanwhile = []\<rparr>"

definition three_lines :: "int \<Rightarrow> proc" where
  "three_lines rc = script [(quiet, Some ''one''), (quiet, Some ''two''), (quiet, Some ''three'')] quiet rc"

text \<open>A configuration, as \<^verbatim>\<open>Configuration.__init__\<close> builds one for the name Alpha.\<close>

definition alpha :: BackupConfiguration where
  "alpha =
     \<lparr>name = ''Alpha'', icon = ''alpha.ico'',
      config_file = \<lparr>drive = ''C:'', comps = [''config'', ''borgmatic-alpha.yml'']\<rparr>,
      wsl_distro = ''Ubuntu'', backup_schedule_hours = 2,
      log_file = alpha_log,
      report_files = \<lparr>drive = ''C:'', comps = [''reports'', ''alpha-files.txt'']\<rparr>,
      report_paths = \<lparr>drive = ''C:'', comps = [''reports'', ''alpha-paths.txt'']\<rparr>,
      report_excluded = \<lparr>drive = ''C:'', comps = [''reports'', ''alpha-excluded.txt'']\<rparr>,
      report_errors = \<lparr>drive = ''C:'', comps = [''reports'', ''alpha-errors.txt'']\<rparr>,
      diff_file = \<lparr>drive = ''C:'', comps = [''reports'', ''alpha-diff.txt'']\<rparr>,
      post_backup_script = \<lparr>drive = ''C:'', comps = [''config'', ''post-backup-alpha.sh'']\<rparr>,
      post_backup_wsl_distro = ''Ubuntu'', post_backup_schedule_hours = 6,
      backup_line_count_file = \<lparr>drive = ''C:'', comps = [''logs'', ''lines-alpha.txt'']\<rparr>\<rparr>"

text \<open>Tables in which the backup of Alpha, or its post-backup task, is active.\<close>

definition backup_running :: state where
  "backup_running = init_state\<lparr>task_status := [(''Alpha backup'', RUNNING)]\<rparr>"

definition post_backup_cancelling :: state where
  "post_backup_cancelling = init_state\<lparr>task_status := [(''Alpha post-backup'', CANCEL_REQUESTED)]\<rparr>"

text \<open>
  A process whose second line arrives after another thread has asked to cancel the
  backup of Alpha; \<^verbatim>\<open>terminate()\<close> is called on that line, but the process has done its
  work and exits with code 0.
\<close>

definition cancelled_late :: proc where
  "cancelled_late =
     Writes quiet (Some ''one'')
       (Writes \<lparr>waited = 400, meanwhile = [(''Alpha backup'', CANCEL_REQUESTED)]\<rparr> (Some ''two'')
          (Returns quiet 0) (Returns quiet 0))
       (Returns quiet 1)"

text \<open>No exit request waiting, and no job that would put one on the queue.\<close>

definition no_exit_pending :: "state \<Rightarrow> bool" where
  "no_exit_pending s = (Exit \<notin> set (input_queue s) \<and> (\<forall>j\<in>set (jobs s). enqueues j \<noteq> Exit))"

text \<open>
  A tick in which nothing becomes due and nothing arrives; an input queue holding an
  object of an unknown class and then an exit request.
\<close>

definition idle_tick :: tick where
  "idle_tick = \<lparr>is_due = (\<lambda>j. False), arrivals = []\<rparr>"

definition unknown_then_exit :: state where
  "unknown_then_exit = init_state\<lparr>input_queue := [Unknown ''str'', Exit]\<rparr>"

subsection \<open>Log analyzer\<close>

text \<open>
  \<^verbatim>\<open>str.split()\<close> (runs of white space separate, no empty words), \<^verbatim>\<open>str.split("/")\<close>
  (every separator splits, empty pieces kept) and the lines a text file iterates over
  (each with its line feed).
\<close>

fun words_aux :: "string \<Rightarrow> string \<Rightarrow> string list" where
  "words_aux cur [] = (if cur = [] then [] else [rev cur])"
| "words_aux cur (x # xs) =
     (if is_space x then (if cur = [] then words_aux [] xs else rev cur # words_aux [] xs)
      else words_aux (x # cur) xs)"

definition words :: "string \<Rightarrow> string list" where
  "words s = words_aux [] s"

fun split_aux :: "char \<Rightarrow> string \<Rightarrow> string \<Rightarrow> string list" where
  "split_aux sep cur [] = [rev cur]"
| "split_aux sep cur (x # xs) =
     (if x = sep then rev cur # split_aux sep [] xs else split_aux sep (x # cur) xs)"

definition split_on :: "char \<Rightarrow> string \<Rightarrow> string list" where
  "split_on sep s = split_aux sep [] s"

fun lines_aux :: "string \<Rightarrow> string \<Rightarrow> string list" where
  "lines_aux cur [] = (if cur = [] then [] else [rev cur])"
| "lines_aux cur (x # xs) =
     (if x = CHR 0x0A then rev (x # cur) # lines_aux [] xs else lines_aux (x # cur) xs)"

definition lines_of :: "string \<Rightarrow> string list" where
  "lines_of content = lines_aux [] content"

text \<open>
  \<^verbatim>\<open>datetime.strptime(s, "%Y-%m-%d %H:%M:%S,%f")\<close> is a parameter of the analyzer: a
  function from the string to the moment in microseconds, \<open>None\<close> where \<^verbatim>\<open>strptime\<close>
  raises \<^verbatim>\<open>ValueError\<close>. Times are whole microseconds, so \<^verbatim>\<open>total_seconds()\<close> and the sums
  of the analyzer are exact here where Python rounds to floats.
\<close>

type_synonym parser = "string \<Rightarrow> int option"

text \<open>
  A \<^verbatim>\<open>defaultdict(float)\<close> in insertion order, and \<^verbatim>\<open>d[k] += v\<close> on it. \<open>total_of\<close> reads
  a key without inserting it.
\<close>

type_synonym totals = "(string \<times> int) list"

definition total_of :: "totals \<Rightarrow> string \<Rightarrow> int" where
  "total_of d k = (case map_of d k of None \<Rightarrow> 0 | Some v \<Rightarrow> v)"

definition add_time :: "string \<Rightarrow> int \<Rightarrow> totals \<Rightarrow> totals" where
  "add_time k v d = (case map_of d k of None \<Rightarrow> d @ [(k, v)] | Some t \<Rightarrow> AList.update k (t + v) d)"

text \<open>The keys \<^verbatim>\<open>"/".join(path_components[:j])\<close> for \<open>j\<close> from 1 to the number of components.\<close>

definition path_prefixes :: "string \<Rightarrow> string list" where
  "path_prefixes path =
     map (\<lambda>j. join ''/'' (take j (split_on CHR ''/'' path)))
       [1..<Suc (length (split_on CHR ''/'' path))]"

text \<open>The variables of the analysis that live across lines and files.\<close>

record tally =
  file_backup_times :: totals
  path_backup_times :: totals
  error_lines :: "string list"
  excluded_files :: "string list"

definition empty_tally :: tally where
  "empty_tally = \<lparr>file_backup_times = [], path_backup_times = [], error_lines = [], excluded_files = []\<rparr>"

text \<open>
  The body of \<^verbatim>\<open>for line in log_file\<close> for the log with index \<open>i\<close>, on the previous
  timestamp, the previous line and the tally.
\<close>

definition analyze_line ::
  "parser \<Rightarrow> nat \<Rightarrow> string \<Rightarrow> int option \<times> string \<times> tally \<Rightarrow> exn + int option \<times> string \<times> tally" where
  "analyze_line strptime i line v =
     (case v of (previous_timestamp, previous_line, t) \<Rightarrow>
        let parts = words line in
        if length parts < 5 then Inr v
        else
          let timestamp_str = butlast (tl (join '' '' (take 2 parts))) @ ''000'' in
          case strptime timestamp_str of
            None \<Rightarrow> Inl (ValueError (''time data '' @ timestamp_str @ '' does not match format''))
          | Some timestamp \<Rightarrow>
              let previous = (case previous_timestamp of None \<Rightarrow> timestamp | Some p \<Rightarrow> p);
                  file_flag = parts ! 3;
                  logged = join '' '' (drop 4 parts);
                  backup_time = timestamp - previous;
                  t1 = (if length file_flag = 1 \<and> backup_time < 600000000
                        then t\<lparr>file_backup_times := add_time logged backup_time (file_backup_times t),
                               path_backup_times :=
                                 fold (\<lambda>component. add_time component backup_time)
                                   (path_prefixes logged) (path_backup_times t)\<rparr>
                        else t);
                  t2 = (if i = 0 \<and> file_flag = ''-''
                        then t1\<lparr>excluded_files := excluded_files t1 @ [line]\<rparr> else t1);
                  t3 = (if i = 0 \<and> file_flag = ''E''
                        then t2\<lparr>error_lines := error_lines t2 @ [previous_line]\<rparr> else t2);
                  t4 = (if i = 0 \<and> sublist ''file changed while we read it!'' line
                        then t3\<lparr>error_lines := error_lines t3 @ [line]\<rparr> else t3)
              in Inr (Some timestamp, line, t4))"

fun analyze_lines ::
  "parser \<Rightarrow> nat \<Rightarrow> string list \<Rightarrow> int option \<times> string \<times> tally \<Rightarrow> exn + int option \<times> string \<times> tally" where
  "analyze_lines strptime i [] v = Inr v"
| "analyze_lines strptime i (line # rest) v =
     (case analyze_line strptime i line v of
        Inl e \<Rightarrow> Inl e
      | Inr v1 \<Rightarrow> analyze_lines strptime i rest v1)"

text \<open>
  The loop \<^verbatim>\<open>for i in range(0, 10)\<close> over the indices left, on the tally and
  \<^verbatim>\<open>backup_count\<close>; it stops at the first log that does not exist.
\<close>

fun scan_logs ::
  "parser \<Rightarrow> wpath \<Rightarrow> nat list \<Rightarrow> tally \<times> nat \<Rightarrow> state \<Rightarrow> exn \<times> state + (tally \<times> nat) \<times> state" where
  "scan_logs strptime logf [] tb s = Inr (tb, s)"
| "scan_logs strptime logf (i # rest) (t, backup_count) s =
     (case files s (str_path logf @ (if i \<noteq> 0 then ''.'' @ str_nat i else [])) of
        None \<Rightarrow> Inr ((t, backup_count), s)
      | Some content \<Rightarrow>
          (let s1 = output_line (''Analyzing '' @ str_path logf @
                                   (if i \<noteq> 0 then ''.'' @ str_nat i else []) @ ''...'') s
           in case analyze_lines strptime i (lines_of content) (None, [], t) of
                Inl e \<Rightarrow> Inl (e, s1)
              | Inr (previous_timestamp, previous_line, t1) \<Rightarrow>
                  scan_logs strptime logf rest (t1, backup_count + 1) s1))"

text \<open>
  \<^verbatim>\<open>sorted(d.items(), key=lambda x: x[1], reverse=True)\<close>: descending by value, items of
  equal value in their order in \<open>d\<close>.
\<close>

definition sorted_desc :: "totals \<Rightarrow> totals" where
  "sorted_desc d = sort_key (\<lambda>x. - snd x) d"

text \<open>
  The lines of the two timing reports: \<^verbatim>\<open>f"{backup_time / backup_count:.2f}s: {path}\n"\<close>,
  the total being in microseconds here.
\<close>

definition time_line :: "nat \<Rightarrow> string \<times> int \<Rightarrow> string" where
  "time_line backup_count x =
     fmt_2f (snd x) (int backup_count * 1000000) @ ''s: '' @ fst x @ NL"

text \<open>\<^verbatim>\<open>write_report\<close>: write the file, then start the editor on it.\<close>

definition write_report ::
  "spawner \<Rightarrow> wpath \<Rightarrow> string \<Rightarrow> string list \<Rightarrow> string \<Rightarrow> state \<Rightarrow> exn \<times> state + state" where
  "write_report popen file header lines editor s =
     (let s1 = s\<lparr>files := (files s)(str_path file \<mapsto> header @ NL @ NL @ concat lines)\<rparr>
      in case popen (editor @ '' '' @ str_path file) of
           Inl ex \<Rightarrow> Inl (ex, s1)
         | Inr process \<Rightarrow> Inr (s1\<lparr>launched := launched s1 @ [editor @ '' '' @ str_path file]\<rparr>))"

definition analysis_title :: "BackupConfiguration \<Rightarrow> string" where
  "analysis_title config = name config @ '' analysis''"

text \<open>
  \<^verbatim>\<open>analyze_logs\<close> for the request \<^verbatim>\<open>AnalyzeLogs(config, editor)\<close>: the body of its \<^verbatim>\<open>try\<close>
  up to the last report, then the whole method.
\<close>

definition analyze_logs_try ::
  "spawner \<Rightarrow> parser \<Rightarrow> BackupConfiguration \<Rightarrow> string \<Rightarrow> state \<Rightarrow> exn \<times> state + state" where
  "analyze_logs_try popen strptime config editor s =
     (case scan_logs strptime (log_file config) [0..<10] (empty_tally, 0) s of
        Inl e \<Rightarrow> Inl e
      | Inr ((t, scanned), s1) \<Rightarrow>
          (let backup_count = (if scanned = 0 then 1 else scanned);
               sorted_files = sorted_desc (file_backup_times t);
               sorted_paths = sorted_desc (path_backup_times t)
           in case write_report popen (report_files config)
                     (''Average backup times for '' @ name config @ '' files ('' @
                      str_nat backup_count @ '' backups analyzed):'')
                     (map (time_line backup_count) sorted_files) editor s1 of
                Inl e \<Rightarrow> Inl e
              | Inr s2 \<Rightarrow>
                  (case write_report popen (report_paths config)
                          (''Average backup times for '' @ name config @ '' paths ('' @
                           str_nat backup_count @ '' backups analyzed):'')
                          (map (time_line backup_count) sorted_paths) editor s2 of
                     Inl e \<Rightarrow> Inl e
                   | Inr s3 \<Rightarrow>
                       (case write_report popen (report_excluded config)
                               (''Excluded files for '' @ name config @ '' (latest backup):'')
                               (excluded_files t) editor s3 of
                          Inl e \<Rightarrow> Inl e
                        | Inr s4 \<Rightarrow>
                            write_report popen (report_errors config)
                              (''Errors for '' @ name config @ '' (latest backup):'')
                              (error_lines t) editor s4))))"

definition analyze_logs ::
  "spawner \<Rightarrow> parser \<Rightarrow> BackupConfiguration \<Rightarrow> string \<Rightarrow> state \<Rightarrow> state" where
  "analyze_logs popen strptime config editor s =
     (case analyze_logs_try popen strptime config editor (set_status (analysis_title config) RUNNING s) of
        Inr s1 \<Rightarrow>
          output_line (''Finished analyzing '' @ name config @ '' logs'')
            (set_status (analysis_title config) FINISHED s1)
      | Inl (ex, s1) \<Rightarrow>
          output_line (''Error analyzing logs for '' @ name config @ '': '' @ str_exn ex @ NL @
                         format_exc ex)
            (set_status (analysis_title config) FAILED s1))"

subsection \<open>Timing statistics as the specification words them\<close>

text \<open>
  What one line adds to the timings, given the previous timestamp: nothing unless the
  line has at least five fields and a timestamp; then, if its flag (the fourth field)
  is a single character and the time since the previous timestamp is below 600
  seconds, that time for its path (the fields from the fifth on).
\<close>

definition stamp_of :: "string \<Rightarrow> string" where
  "stamp_of line = butlast (tl (join '' '' (take 2 (words line)))) @ ''000''"

definition line_delta :: "parser \<Rightarrow> int option \<Rightarrow> string \<Rightarrow> (string \<times> int) list" where
  "line_delta strptime previous line =
     (if length (words line) < 5 then []
      else case strptime (stamp_of line) of
             None \<Rightarrow> []
           | Some timestamp \<Rightarrow>
               if length (words line ! 3) = 1
                  \<and> timestamp - (case previous of None \<Rightarrow> timestamp | Some p \<Rightarrow> p) < 600000000
               then [(join '' '' (drop 4 (words line)),
                      timestamp - (case previous of None \<Rightarrow> timestamp | Some p \<Rightarrow> p))]
               else [])"

text \<open>The previous timestamp for the next line: that of the last line with five fields.\<close>

definition next_previous :: "parser \<Rightarrow> int option \<Rightarrow> string \<Rightarrow> int option" where
  "next_previous strptime previous line =
     (if length (words line) < 5 then previous else strptime (stamp_of line))"

fun admitted :: "parser \<Rightarrow> int option \<Rightarrow> string list \<Rightarrow> (string \<times> int) list" where
  "admitted strptime previous [] = []"
| "admitted strptime previous (line # rest) =
     line_delta strptime previous line @ admitted strptime (next_previous strptime previous line) rest"

text \<open>
  The generations scanned: the indices from 0 on up to the first log that does not
  exist; and the timings all of them contribute, each log starting with no previous
  timestamp.
\<close>

definition scanned :: "wpath \<Rightarrow> state \<Rightarrow> nat list" where
  "scanned logf s = takeWhile (\<lambda>i. files s (generation logf i) \<noteq> None) [0..<10]"

definition all_admitted :: "parser \<Rightarrow> wpath \<Rightarrow> state \<Rightarrow> (string \<times> int) list" where
  "all_admitted strptime logf s =
     concat (map (\<lambda>i. case files s (generation logf i) of
                         None \<Rightarrow> []
                       | Some content \<Rightarrow> admitted strptime None (lines_of content))
               (scanned logf s))"

subsection \<open>The post-backup handler among other threads\<close>

text \<open>
  The status table is shared with the other threads, and \<^verbatim>\<open>run_post_backup\<close> can be
  preempted between its steps. \<open>other_threads ws\<close> applies the assignments
  \<^verbatim>\<open>self.task_status[k] = v\<close> that other threads make at such a point. Three points are
  modelled: the ten seconds a scheduled request sleeps, the moment between the check
  of the post-backup task and the check of the backup task, and the moment between
  that check and the call of the supervisor. With no assignment at any of them this
  is \<open>run_post_backup\<close>.
\<close>

definition other_threads :: "(string \<times> TaskStatus) list \<Rightarrow> state \<Rightarrow> state" where
  "other_threads ws s =
     s\<lparr>task_status := foldl (\<lambda>ts (k, v). AList.update k v ts) (task_status s) ws\<rparr>"

record gaps =
  in_grace :: "(string \<times> TaskStatus) list"
  between_checks :: "(string \<times> TaskStatus) list"
  before_launch :: "(string \<times> TaskStatus) list"

definition no_gaps :: gaps where
  "no_gaps = \<lparr>in_grace = [], between_checks = [], before_launch = []\<rparr>"

text \<open>The states in which the two checks read the table.\<close>

definition at_first_check :: "gaps \<Rightarrow> bool \<Rightarrow> state \<Rightarrow> state" where
  "at_first_check g is_scheduled s =
     (if is_scheduled then other_threads (in_grace g) (sleep 10 s) else s)"

definition at_second_check :: "gaps \<Rightarrow> BackupConfiguration \<Rightarrow> bool \<Rightarrow> state \<Rightarrow> state" where
  "at_second_check g config is_scheduled s =
     other_threads (between_checks g)
       (snd (task_is_running (post_backup_title config) (at_first_check g is_scheduled s)))"

definition run_post_backup_try_among ::
  "gaps \<Rightarrow> spawner \<Rightarrow> BackupConfiguration \<Rightarrow> bool \<Rightarrow> state \<Rightarrow> exn \<times> state + state" where
  "run_post_backup_try_among g popen config is_scheduled s =
     (let s0 = (if is_scheduled then other_threads (in_grace g) (sleep 10 s) else s)
      in case task_is_running (post_backup_title config) s0 of
           (True, s1) \<Rightarrow>
             Inr (output_line (post_backup_title config @ '' is already running, skipping'') s1)
         | (False, s1) \<Rightarrow>
             (case task_is_running (backup_title config) (other_threads (between_checks g) s1) of
                (True, s2) \<Rightarrow>
                  (let s3 = output_line (backup_title config @ '' is still running, delaying '' @
                                           post_backup_title config) s2;
                       s4 = sleep 30 s3
                   in Inr (s4\<lparr>input_queue := input_queue s4 @ [StartPostBackup config is_scheduled]\<rparr>))
              | (False, s2) \<Rightarrow>
                  (case run_process_and_update_systray popen (post_backup_title config)
                          (post_backup_command config) 0 (other_threads (before_launch g) s2) of
                     Inl e \<Rightarrow> Inl e
                   | Inr (n, s3) \<Rightarrow> Inr s3)))"

definition run_post_backup_among ::
  "gaps \<Rightarrow> spawner \<Rightarrow> BackupConfiguration \<Rightarrow> bool \<Rightarrow> state \<Rightarrow> state" where
  "run_post_backup_among g popen config is_scheduled s =
     (case run_post_backup_try_among g popen config is_scheduled s of
        Inr s1 \<Rightarrow> s1
      | Inl (ex, s1) \<Rightarrow>
          if is_CalledProcessError ex then s1
          else output_line (''Error running post-backup tasks for '' @ name config @ '': '' @
                              str_exn ex @ NL @ format_exc ex)
                 (set_status (post_backup_title config) FAILED s1))"



definition analysis_running :: state where
  "analysis_running = init_state\<lparr>task_status := [(''Alpha analysis'', RUNNING)]\<rparr>"

text \<open>The state in which the post-backup handler calls the supervisor.\<close>

definition at_launch :: "gaps \<Rightarrow> BackupConfiguration \<Rightarrow> bool \<Rightarrow> state \<Rightarrow> state" where
  "at_launch g config is_scheduled s =
     other_threads (before_launch g)
       (snd (task_is_running (backup_title config) (at_second_check g config is_scheduled s)))"

subsection \<open>Two workers for one backup\<close>

text \<open>
  Every \<^verbatim>\<open>StartBackup\<close> request gets a worker thread of its own, and the threads take
  turns between statements. The body of \<^verbatim>\<open>try\<close> in \<^verbatim>\<open>run_backup\<close> is cut here where the
  turn matters: \<open>backup_prepare\<close> is the check of the table, the rotation and the loading
  of the line count, with \<open>Inl\<close> where the body ends there and \<open>Inr\<close> where it goes on to
  the supervisor; \<open>start_process\<close> is the supervisor up to \<^verbatim>\<open>Popen\<close>, which sets the status
  \<open>RUNNING\<close>, and yields the process and its start time; \<open>follow_process\<close> is the rest of
  the supervisor.
\<close>

definition backup_prepare ::
  "BackupConfiguration \<Rightarrow> state \<Rightarrow> (exn \<times> state + state) + int \<times> state" where
  "backup_prepare config s =
     (case task_is_running (backup_title config) s of
        (True, s1) \<Rightarrow>
          Inl (Inr (output_line (backup_title config @ '' is already running, skipping'') s1))
      | (False, s1) \<Rightarrow>
          (case rotate_logs (log_file config) s1 of
             Inl e \<Rightarrow> Inl (Inl e)
           | Inr s2 \<Rightarrow>
               (case load_line_count (backup_line_count_file config) s2 of
                  Inl e \<Rightarrow> Inl (Inl e)
                | Inr backup_lines \<Rightarrow> Inr (backup_lines, s2))))"

definition start_process ::
  "spawner \<Rightarrow> string \<Rightarrow> string \<Rightarrow> state \<Rightarrow> exn \<times> state + (proc \<times> nat) \<times> state" where
  "start_process popen title command s =
     (let s1 = output_line (''Running '' @ title @ '': started'') (set_status title RUNNING s);
          start_time = clock s1
      in case popen command of
           Inl ex \<Rightarrow> Inl (ex, s1)
         | Inr process \<Rightarrow> Inr ((process, start_time), s1\<lparr>launched := launched s1 @ [command]\<rparr>))"

definition follow_process ::
  "string \<Rightarrow> string \<Rightarrow> int \<Rightarrow> proc \<Rightarrow> nat \<Rightarrow> state \<Rightarrow> exn \<times> state + nat \<times> state" where
  "follow_process title command line_count_target process start_time s =
     (case read_lines title line_count_target start_time process 0 [] start_time s of
        Inl e \<Rightarrow> Inl e
      | Inr ((line_count, stats_output, rc), s2) \<Rightarrow>
          process_exited title command start_time line_count stats_output rc s2)"

text \<open>
  Two workers handle \<^verbatim>\<open>StartBackup\<close> for the same configuration, and the second checks
  the table before the first has called the supervisor: the first worker prepares, the
  second prepares, the first starts its process, the second starts its process. The
  result is the two processes, neither read from yet, and the state at that moment;
  \<open>None\<close> if one of the workers does not get as far as a started process.
\<close>

definition two_backup_workers ::
  "spawner \<Rightarrow> BackupConfiguration \<Rightarrow> state \<Rightarrow> ((proc \<times> proc) \<times> state) option" where
  "two_backup_workers popen config s =
     (case backup_prepare config s of
        Inl r \<Rightarrow> None
      | Inr (lines1, s1) \<Rightarrow>
          (case backup_prepare config s1 of
             Inl r \<Rightarrow> None
           | Inr (lines2, s2) \<Rightarrow>
               (case start_process popen (backup_title config) (backup_command config) s2 of
                  Inl e \<Rightarrow> None
                | Inr ((process1, start1), s3) \<Rightarrow>
                    (case start_process popen (backup_title config) (backup_command config) s3 of
                       Inl e \<Rightarrow> None
                     | Inr ((process2, start2), s4) \<Rightarrow> Some ((process1, process2), s4)))))"

subsection \<open>Example logs\<close>

text \<open>
  \<^verbatim>\<open>strptime\<close> on the timestamps of the example logs, in microseconds from two o'clock
  on the first of May, and a disk with two generations of the log of Alpha. The newer
  log lists two files 2.5 seconds apart and a third one a quarter of an hour later;
  the older lists two files 4 seconds apart.
\<close>

definition alpha_strptime :: parser where
  "alpha_strptime =
     map_of [(''2024-05-01 02:00:00,000000'', 0),
             (''2024-05-01 02:00:02,500000'', 2500000),
             (''2024-05-01 02:15:00,000000'', 900000000),
             (''2024-04-30 02:00:00,000000'', - 86400000000),
             (''2024-04-30 02:00:04,000000'', - 86396000000)]"

definition two_logs :: state where
  "two_logs =
     init_state\<lparr>files :=
       [generation alpha_log 0 \<mapsto>
          ''[2024-05-01 02:00:00,000] INFO: A /home/a.txt'' @ NL @
          ''[2024-05-01 02:00:02,500] INFO: M /home/b.txt'' @ NL @
          ''[2024-05-01 02:15:00,000] INFO: A /home/c.txt'' @ NL,
        generation alpha_log 1 \<mapsto>
          ''[2024-04-30 02:00:00,000] INFO: A /home/b.txt'' @ NL @
          ''[2024-04-30 02:00:04,000] INFO: A /home/a.txt'' @ NL]\<rparr>"

section \<open>Properties\<close>

subsection \<open>Status and icon publisher\<close>

lemma first_running_decomp:
  "RUNNING \<in> snd ` set ts \<Longrightarrow>
   \<exists>pre t post. ts = pre @ (t, RUNNING) # post \<and> (\<forall>p\<in>set pre. snd p \<noteq> RUNNING)
      \<and> first_running ts = Some t"
proof (induction ts)
  case Nil
  then show ?case by simp
next
  case (Cons a ts)
  obtain t st where a: "a = (t, st)" by (cases a)
  show ?case
  proof (cases "st = RUNNING")
    case True
    then have "a # ts = [] @ (t, RUNNING) # ts \<and> (\<forall>p\<in>set []. snd p \<noteq> RUNNING)
        \<and> first_running (a # ts) = Some t"
      using a by simp
    then show ?thesis by blast
  next
    case False
    with Cons.prems a have "RUNNING \<in> snd ` set ts" by auto
    from Cons.IH[OF this] obtain pre t' post where
      h: "ts = pre @ (t', RUNNING) # post" "\<forall>p\<in>set pre. snd p \<noteq> RUNNING"
         "first_running ts = Some t'" by blast
    have "a # ts = (a # pre) @ (t', RUNNING) # post \<and> (\<forall>p\<in>set (a # pre). snd p \<noteq> RUNNING)
        \<and> first_running (a # ts) = Some t'"
      using h a False by simp
    then show ?thesis by blast
  qed
qed

lemma update_systray_auto:
  "update_systray hover_text None s =
     s\<lparr>last_sent_icon := auto_icon (task_status s),
       output_queue := output_queue s @
         [UpdateSystray hover_text
            (if auto_icon (task_status s) = last_sent_icon s then None
             else auto_icon (task_status s))]\<rparr>"
  by (simp add: update_systray_def Let_def)

text \<open>
  Claim C8. With no icon given, \<^verbatim>\<open>update_systray\<close> chooses: the error icon if some task
  is \<open>FAILED\<close>; else, if some task is \<open>RUNNING\<close>, the icon of the first running task in
  the table, by the first of the words post-backup, backup, analysis, diff its title
  contains (no icon when it contains none); else the success icon if some task is
  \<open>FINISHED\<close>; else the idle icon. The choice becomes the last icon sent. The message
  put on the output queue carries the hover text as given, and the chosen icon only
  if it differs from the last icon sent, no icon otherwise.
\<close>

theorem update_systray_icon_precedence:
  "\<exists>chosen.
     (if FAILED \<in> snd ` set (task_status s) then chosen = Some ''./icons/error.ico''
      else if RUNNING \<in> snd ` set (task_status s) then
        (\<exists>pre t post. task_status s = pre @ (t, RUNNING) # post
           \<and> (\<forall>p\<in>set pre. snd p \<noteq> RUNNING)
           \<and> chosen = (if sublist ''post-backup'' t then Some ''./icons/post-backup.ico''
                       else if sublist ''backup'' t then Some ''./icons/backup.ico''
                       else if sublist ''analysis'' t then Some ''./icons/analyze.ico''
                       else if sublist ''diff'' t then Some ''./icons/logs.ico''
                       else None))
      else if FINISHED \<in> snd ` set (task_status s) then chosen = Some ''./icons/success.ico''
      else chosen = Some ''./icons/drive.ico'')
     \<and> update_systray hover_text None s =
         s\<lparr>last_sent_icon := chosen,
           output_queue := output_queue s @
             [UpdateSystray hover_text (if chosen = last_sent_icon s then None else chosen)]\<rparr>"
proof -
  note upd = update_systray_auto [of hover_text s]
  show ?thesis
  proof (cases "FAILED \<in> snd ` set (task_status s)")
    case True
    then have "auto_icon (task_status s) = Some ''./icons/error.ico''"
      by (simp add: auto_icon_def)
    with True upd show ?thesis by simp
  next
    case nf: False
    show ?thesis
    proof (cases "RUNNING \<in> snd ` set (task_status s)")
      case True
      from first_running_decomp[OF True] obtain pre t post where
        h: "task_status s = pre @ (t, RUNNING) # post" "\<forall>p\<in>set pre. snd p \<noteq> RUNNING"
           "first_running (task_status s) = Some t" by blast
      have ai: "auto_icon (task_status s) = running_icon t"
        using nf True h(3) by (simp add: auto_icon_def)
      have "\<exists>pre t post. task_status s = pre @ (t, RUNNING) # post
           \<and> (\<forall>p\<in>set pre. snd p \<noteq> RUNNING) \<and> auto_icon (task_status s) = running_icon t"
        using h(1,2) ai by blast
      then show ?thesis
        unfolding running_icon_def using nf True upd
        by (intro exI[of _ "auto_icon (task_status s)"]) simp
    next
      case nr: False
      show ?thesis
      proof (cases "FINISHED \<in> snd ` set (task_status s)")
        case True
        with nf nr have "auto_icon (task_status s) = Some ''./icons/success.ico''"
          by (simp add: auto_icon_def)
        with nf nr True upd show ?thesis by simp
      next
        case False
        with nf nr have "auto_icon (task_status s) = Some ''./icons/drive.ico''"
          by (simp add: auto_icon_def)
        with nf nr False upd show ?thesis by simp
      qed
    qed
  qed
qed

text \<open>A failed and a running task: the error icon, sent since none was sent before.\<close>

theorem update_systray_icon_precedence_witness:
  "output_queue (update_systray (Some ''hello'') None running_and_failed) =
     [UpdateSystray (Some ''hello'') (Some ''./icons/error.ico'')]"
  using update_systray_icon_precedence [of running_and_failed "Some ''hello''"]
  by (auto simp: running_and_failed_def init_state_def split: if_splits)

subsection \<open>Log rotator\<close>

lemma join_snoc_last:
  "cs \<noteq> [] \<Longrightarrow> join sep (butlast cs @ [last cs @ sfx]) = join sep cs @ sfx"
  by (induction sep cs rule: join.induct) auto

lemma sibling_str:
  "str_path (path_div (path_parent p) (path_name p @ sfx)) = str_path p @ sfx"
  by (cases "comps p = []")
     (simp_all add: str_path_def path_div_def path_parent_def path_name_def join_snoc_last)

lemma str_nat_digit: "n < 10 \<Longrightarrow> str_nat n = [digit_char n]"
  by (simp add: str_nat.simps)

lemma digit_char_inj: "i < 10 \<Longrightarrow> j < 10 \<Longrightarrow> digit_char i = digit_char j \<longleftrightarrow> i = j"
  by (simp add: digit_char_def)

lemma generation_inj:
  "i < 10 \<Longrightarrow> j < 10 \<Longrightarrow> generation logf i = generation logf j \<longleftrightarrow> i = j"
  by (simp add: generation_def str_nat_digit digit_char_inj)

lemma generation_pos: "i \<noteq> 0 \<Longrightarrow> str_path logf @ CHR ''.'' # str_nat i = generation logf i"
  by (simp add: generation_def)

lemma generation_Suc: "str_path logf @ CHR ''.'' # str_nat (Suc i) = generation logf (Suc i)"
  by (simp add: generation_def)

lemma digit_9: "digit_char 9 = CHR ''9''" by code_simp
lemma digit_1: "digit_char (Suc 0) = CHR ''1''" by code_simp

lemma move_Some:
  "files s src = Some c \<Longrightarrow> move src dst s = Inr (s\<lparr>files := (files s)(src := None, dst \<mapsto> c)\<rparr>)"
  by (simp add: move_def)

lemma rotate_loop_spec:
  "\<forall>i\<in>set is. i \<noteq> 0 \<Longrightarrow>
   rotate_loop logf is s =
     Inr (s\<lparr>files := foldl (\<lambda>f' i. rename_if_exists (generation logf i) (generation logf (i + 1)) f')
                         (files s) is\<rparr>)"
proof (induction "is" arbitrary: s)
  case Nil
  show ?case by simp
next
  case (Cons i rest)
  have i: "i \<noteq> 0" and rest: "\<forall>i\<in>set rest. i \<noteq> 0" using Cons.prems by simp_all
  note IH = Cons.IH [OF rest]
  show ?case
  proof (cases "files s (generation logf i)")
    case None
    then show ?thesis
      using i by (simp add: IH sibling_str generation_pos generation_Suc path_exists_def rename_if_exists_def)
  next
    case (Some c)
    define F where "F = (files s)(generation logf i := None, generation logf (i + 1) \<mapsto> c)"
    define s1 where "s1 = s\<lparr>files := F\<rparr>"
    have fs1: "files s1 = F" by (simp add: s1_def)
    have upd: "s1\<lparr>files := X\<rparr> = s\<lparr>files := X\<rparr>" for X by (simp add: s1_def)
    have ex: "path_exists s (generation logf i)" using Some by (simp add: path_exists_def)
    have mv: "move (generation logf i) (generation logf (Suc i)) s = Inr s1"
      using move_Some [OF Some, of "generation logf (Suc i)"] by (simp add: s1_def F_def)
    have step: "rotate_loop logf (i # rest) s = rotate_loop logf rest s1"
      using i ex by (simp add: sibling_str generation_pos generation_Suc mv)
    have F: "rename_if_exists (generation logf i) (generation logf (i + 1)) (files s) = F"
      using Some by (simp add: rename_if_exists_def F_def)
    show ?thesis
      unfolding step IH [of s1] fs1 upd foldl_Cons F ..
  qed
qed

lemma rotate_logs_spec:
  "rotate_logs logf s = Inr (s\<lparr>files := rotate_spec logf (files s)\<rparr>)"
proof -
  have nine: "str_path logf @ ''.9'' = generation logf 9"
    by (simp add: generation_def str_nat_digit digit_9)
  have lst: "rev [1..<9] = [8, 7, 6, 5, 4, 3, 2, 1::nat]" by (simp add: upt_rec)
  define F1 where "F1 = delete_if_exists (generation logf 9) (files s)"
  define s1 where "s1 = s\<lparr>files := F1\<rparr>"
  define F2 where "F2 = foldl (\<lambda>f' i. rename_if_exists (generation logf i) (generation logf (i + 1)) f')
                         F1 [8, 7, 6, 5, 4, 3, 2, 1]"
  define s2 where "s2 = s\<lparr>files := F2\<rparr>"
  have first: "(if path_exists s (generation logf 9) then unlink (generation logf 9) s else Inr s)
      = Inr s1"
    by (auto simp: path_exists_def unlink_def delete_if_exists_def s1_def F1_def)
  have "rotate_loop logf [8, 7, 6, 5, 4, 3, 2, 1] s1 =
     Inr (s1\<lparr>files := foldl (\<lambda>f' i. rename_if_exists (generation logf i) (generation logf (i + 1)) f')
                         (files s1) [8, 7, 6, 5, 4, 3, 2, 1]\<rparr>)"
    by (rule rotate_loop_spec) simp
  also have "\<dots> = Inr s2" by (simp add: s1_def s2_def F2_def)
  finally have loop: "rotate_loop logf [8, 7, 6, 5, 4, 3, 2, 1] s1 = Inr s2" .
  have last: "(if path_exists s2 (str_path logf) then move (str_path logf) (str_path logf @ ''.1'') s2 else Inr s2)
      = Inr (s\<lparr>files := rename_if_exists (generation logf 0) (generation logf 1) F2\<rparr>)"
    by (auto simp: path_exists_def move_def rename_if_exists_def generation_def str_nat_digit digit_1 s2_def)
  have "rotate_logs logf s = Inr (s\<lparr>files := rename_if_exists (generation logf 0) (generation logf 1) F2\<rparr>)"
    unfolding rotate_logs_def sibling_str nine lst first sum.case loop last ..
  then show ?thesis by (simp add: rotate_spec_def F2_def F1_def)
qed


lemma rename_if_exists_src:
  "src \<noteq> dst \<Longrightarrow> rename_if_exists src dst f src = None"
  by (simp add: rename_if_exists_def split: option.splits)

lemma rename_if_exists_dst:
  "f dst = None \<Longrightarrow> rename_if_exists src dst f dst = f src"
  by (simp add: rename_if_exists_def split: option.splits)

lemma rename_if_exists_other:
  "p \<noteq> src \<Longrightarrow> p \<noteq> dst \<Longrightarrow> rename_if_exists src dst f p = f p"
  by (simp add: rename_if_exists_def split: option.splits)

lemma shift_generations:
  assumes "f (generation logf (Suc n)) = None" and "n < 9"
  defines "f' \<equiv> foldl (\<lambda>f' i. rename_if_exists (generation logf i) (generation logf (i + 1)) f')
                    f (rev [1..<Suc n])"
  shows "(\<forall>i. 1 \<le> i \<and> i \<le> n \<longrightarrow> f' (generation logf (Suc i)) = f (generation logf i))
       \<and> f' (generation logf 1) = None
       \<and> (\<forall>p. (\<forall>i. 1 \<le> i \<and> i \<le> Suc n \<longrightarrow> p \<noteq> generation logf i) \<longrightarrow> f' p = f p)"
  using assms(1,2) unfolding f'_def
proof (induction n arbitrary: f)
  case 0
  then show ?case by simp
next
  case (Suc n)
  let ?g = "generation logf"
  define f1 where "f1 = rename_if_exists (?g (Suc n)) (?g (Suc n + 1)) f"
  define r where "r = foldl (\<lambda>f' i. rename_if_exists (?g i) (?g (i + 1)) f') f1 (rev [1..<Suc n])"
  have ne: "?g (Suc n) \<noteq> ?g (Suc (Suc n))"
    using Suc.prems(2) by (simp add: generation_inj)
  have a: "f1 (?g (Suc n)) = None"
    unfolding f1_def using ne by (simp add: rename_if_exists_src)
  have b: "f1 (?g (Suc (Suc n))) = f (?g (Suc n))"
    unfolding f1_def using Suc.prems(1) by (simp add: rename_if_exists_dst)
  have c: "f1 p = f p" if "p \<noteq> ?g (Suc n)" "p \<noteq> ?g (Suc (Suc n))" for p
    unfolding f1_def using that by (simp add: rename_if_exists_other)
  have n: "n < 9" using Suc.prems(2) by simp
  have IH: "(\<forall>i. 1 \<le> i \<and> i \<le> n \<longrightarrow> r (?g (Suc i)) = f1 (?g i))
       \<and> r (?g 1) = None
       \<and> (\<forall>p. (\<forall>i. 1 \<le> i \<and> i \<le> Suc n \<longrightarrow> p \<noteq> ?g i) \<longrightarrow> r p = f1 p)"
    unfolding r_def by (rule Suc.IH [of f1, OF a n])
  have fold: "foldl (\<lambda>f' i. rename_if_exists (?g i) (?g (i + 1)) f') f (rev [1..<Suc (Suc n)]) = r"
    by (simp add: r_def f1_def)
  have one: "\<forall>i. 1 \<le> i \<and> i \<le> Suc n \<longrightarrow> r (?g (Suc i)) = f (?g i)"
  proof (intro allI impI)
    fix i assume i: "1 \<le> i \<and> i \<le> Suc n"
    show "r (?g (Suc i)) = f (?g i)"
    proof (cases "i = Suc n")
      case True
      have "\<forall>j. 1 \<le> j \<and> j \<le> Suc n \<longrightarrow> ?g (Suc (Suc n)) \<noteq> ?g j"
        using Suc.prems(2) by (simp add: generation_inj)
      with IH have "r (?g (Suc (Suc n))) = f1 (?g (Suc (Suc n)))" by blast
      with b True show ?thesis by simp
    next
      case False
      with i have le: "1 \<le> i \<and> i \<le> n" by simp
      with IH have "r (?g (Suc i)) = f1 (?g i)" by blast
      moreover have "?g i \<noteq> ?g (Suc n)" "?g i \<noteq> ?g (Suc (Suc n))"
        using le Suc.prems(2) by (simp_all add: generation_inj)
      ultimately show ?thesis using c by simp
    qed
  qed
  have three: "\<forall>p. (\<forall>i. 1 \<le> i \<and> i \<le> Suc (Suc n) \<longrightarrow> p \<noteq> ?g i) \<longrightarrow> r p = f p"
  proof (intro allI impI)
    fix p assume p: "\<forall>i. 1 \<le> i \<and> i \<le> Suc (Suc n) \<longrightarrow> p \<noteq> ?g i"
    then have "\<forall>i. 1 \<le> i \<and> i \<le> Suc n \<longrightarrow> p \<noteq> ?g i" by simp
    with IH have "r p = f1 p" by blast
    moreover have "p \<noteq> ?g (Suc n)" "p \<noteq> ?g (Suc (Suc n))" using p by simp_all
    ultimately show "r p = f p" using c by simp
  qed
  show ?case unfolding fold using one IH three by blast
qed

lemma rotate_spec_result:
  fixes logf f
  defines "f' \<equiv> rotate_spec logf f"
  shows "f' (generation logf 0) = None"
    and "\<forall>i<9. f' (generation logf (Suc i)) = f (generation logf i)"
    and "\<forall>p. (\<forall>i<10. p \<noteq> generation logf i) \<longrightarrow> f' p = f p"
proof -
  let ?g = "generation logf"
  define f0 where "f0 = delete_if_exists (?g 9) f"
  define r where "r = foldl (\<lambda>f' i. rename_if_exists (?g i) (?g (i + 1)) f') f0 (rev [1..<Suc 8])"
  have lst: "rev [1..<Suc 8] = [8, 7, 6, 5, 4, 3, 2, 1::nat]" by (simp add: upt_rec)
  have f': "f' = rename_if_exists (?g 0) (?g 1) r"
    unfolding f'_def rotate_spec_def r_def lst f0_def ..
  have f0_9: "f0 (?g (Suc 8)) = None" by (simp add: f0_def delete_if_exists_def)
  have f0_other: "f0 p = f p" if "p \<noteq> ?g 9" for p using that by (simp add: f0_def delete_if_exists_def)
  have sh: "(\<forall>i. 1 \<le> i \<and> i \<le> 8 \<longrightarrow> r (?g (Suc i)) = f0 (?g i))
       \<and> r (?g 1) = None
       \<and> (\<forall>p. (\<forall>i. 1 \<le> i \<and> i \<le> Suc 8 \<longrightarrow> p \<noteq> ?g i) \<longrightarrow> r p = f0 p)"
    unfolding r_def by (rule shift_generations [where f = f0 and n = 8, OF f0_9]) simp
  have ne01: "?g 0 \<noteq> ?g 1" by (simp add: generation_inj)
  show "f' (?g 0) = None" unfolding f' using ne01 by (simp add: rename_if_exists_src)
  have r0: "r (?g 0) = f (?g 0)"
  proof -
    have "\<forall>i. 1 \<le> i \<and> i \<le> Suc 8 \<longrightarrow> ?g 0 \<noteq> ?g i" by (simp add: generation_inj)
    with sh have "r (?g 0) = f0 (?g 0)" by blast
    moreover have "?g 0 \<noteq> ?g 9" by (simp add: generation_inj)
    ultimately show ?thesis by (simp add: f0_other)
  qed
  show "\<forall>i<9. f' (?g (Suc i)) = f (?g i)"
  proof (intro allI impI)
    fix i :: nat assume i: "i < 9"
    show "f' (?g (Suc i)) = f (?g i)"
    proof (cases "i = 0")
      case True
      have "f' (?g 1) = r (?g 0)" unfolding f' using sh by (simp add: rename_if_exists_dst)
      with r0 True show ?thesis by simp
    next
      case False
      then have le: "1 \<le> i \<and> i \<le> 8" using i by simp
      have "?g (Suc i) \<noteq> ?g 0" "?g (Suc i) \<noteq> ?g 1" using i False by (simp_all add: generation_inj)
      then have "f' (?g (Suc i)) = r (?g (Suc i))" unfolding f' by (simp add: rename_if_exists_other)
      also have "\<dots> = f0 (?g i)" using sh le by blast
      also have "\<dots> = f (?g i)" using i by (simp add: f0_other generation_inj)
      finally show ?thesis .
    qed
  qed
  show "\<forall>p. (\<forall>i<10. p \<noteq> ?g i) \<longrightarrow> f' p = f p"
  proof (intro allI impI)
    fix p assume p: "\<forall>i<10. p \<noteq> ?g i"
    then have "p \<noteq> ?g 0" "p \<noteq> ?g 1" "p \<noteq> ?g 9" by simp_all
    then have "f' p = r p" unfolding f' by (simp add: rename_if_exists_other)
    moreover have "\<forall>i. 1 \<le> i \<and> i \<le> Suc 8 \<longrightarrow> p \<noteq> ?g i" using p by simp
    with sh have "r p = f0 p" by blast
    ultimately show "f' p = f p" using \<open>p \<noteq> ?g 9\<close> by (simp add: f0_other)
  qed
qed

text \<open>
  Claim C5. For every log path and every file system, \<^verbatim>\<open>rotate_logs\<close> raises nothing and
  does what the specification's rotation does (delete generation 9 if it exists; for
  \<open>i\<close> from 8 down to 1 rename generation \<open>i\<close> to \<open>i + 1\<close> if it exists; rename the log to
  generation 1 if it exists). Afterwards the log itself does not exist, generation
  \<open>i + 1\<close> holds what generation \<open>i\<close> held before for every \<open>i\<close> from 0 to 8 (so the old
  generation 9 is gone), and every other file is as it was. With none of the ten
  files present the state is unchanged.
\<close>

theorem rotate_logs_correct:
  "\<exists>s'. rotate_logs logf s = Inr s'
     \<and> s' = s\<lparr>files := rotate_spec logf (files s)\<rparr>
     \<and> files s' (generation logf 0) = None
     \<and> (\<forall>i<9. files s' (generation logf (Suc i)) = files s (generation logf i))
     \<and> (\<forall>p. (\<forall>i<10. p \<noteq> generation logf i) \<longrightarrow> files s' p = files s p)
     \<and> ((\<forall>i<10. files s (generation logf i) = None) \<longrightarrow> s' = s)"
proof -
  define s' where "s' = s\<lparr>files := rotate_spec logf (files s)\<rparr>"
  have fs: "files s' = rotate_spec logf (files s)" by (simp add: s'_def)
  note r = rotate_spec_result [of logf "files s", folded fs]
  have noop: "s' = s" if none: "\<forall>i<10. files s (generation logf i) = None"
  proof -
    have "files s' p = files s p" for p
    proof (cases "\<exists>i<10. p = generation logf i")
      case True
      then obtain i where i: "i < 10" "p = generation logf i" by blast
      show ?thesis
      proof (cases i)
        case 0
        with i r(1) none show ?thesis by simp
      next
        case (Suc j)
        with i have "j < 9" by simp
        with r(2) have "files s' (generation logf (Suc j)) = files s (generation logf j)" by blast
        with none i Suc show ?thesis by simp
      qed
    next
      case False
      with r(3) show ?thesis by blast
    qed
    then have "files s' = files s" by (rule ext)
    then have "rotate_spec logf (files s) = files s" using fs by simp
    then show ?thesis by (simp add: s'_def)
  qed
  have "rotate_logs logf s = Inr s'" by (simp add: rotate_logs_spec s'_def)
  with r noop show ?thesis unfolding s'_def by blast
qed

text \<open>All ten generations present, and an empty disk.\<close>

theorem rotate_logs_correct_witness:
  "(\<exists>s'. rotate_logs alpha_log ten_generations = Inr s'
      \<and> files s' (generation alpha_log 0) = None
      \<and> files s' (generation alpha_log 1) = Some ''run 0''
      \<and> files s' (generation alpha_log 9) = Some ''run 8'')
   \<and> rotate_logs alpha_log init_state = Inr init_state"
proof -
  have g0: "files ten_generations (generation alpha_log 0) = Some ''run 0''" by code_simp
  have g8: "files ten_generations (generation alpha_log 8) = Some ''run 8''" by code_simp
  have none: "\<forall>i<10. files init_state (generation alpha_log i) = None"
    by (simp add: init_state_def)
  from rotate_logs_correct [of alpha_log ten_generations] obtain s' where
    s': "rotate_logs alpha_log ten_generations = Inr s'"
        "files s' (generation alpha_log 0) = None"
        "\<forall>i<9. files s' (generation alpha_log (Suc i)) = files ten_generations (generation alpha_log i)"
    by blast
  have "files s' (generation alpha_log (Suc 0)) = files ten_generations (generation alpha_log 0)"
    using s'(3) [rule_format, of 0] by simp
  moreover have "files s' (generation alpha_log (Suc 8)) = files ten_generations (generation alpha_log 8)"
    using s'(3) [rule_format, of 8] by simp
  ultimately have "files s' (generation alpha_log 1) = Some ''run 0''"
    "files s' (generation alpha_log 9) = Some ''run 8''" using g0 g8 by simp_all
  with s'(1,2) have A: "\<exists>s'. rotate_logs alpha_log ten_generations = Inr s'
      \<and> files s' (generation alpha_log 0) = None
      \<and> files s' (generation alpha_log 1) = Some ''run 0''
      \<and> files s' (generation alpha_log 9) = Some ''run 8''" by blast
  from rotate_logs_correct [of alpha_log init_state] none
  have "rotate_logs alpha_log init_state = Inr init_state" by auto
  with A show ?thesis by blast
qed

subsection \<open>State fields and the line loop\<close>

lemma status_of_update [simp]:
  "status_of (AList.update k v ts) k' = (if k' = k then v else status_of ts k')"
  by (simp add: status_of_def update_conv')

lemma status_of_touch [simp]: "status_of (touch k ts) k' = status_of ts k'"
  by (auto simp: status_of_def touch_def split: option.splits if_splits)

lemma touch_present: "map_of ts k \<noteq> None \<Longrightarrow> touch k ts = ts"
  by (auto simp: touch_def)

lemma active_present: "is_active (status_of ts k) \<Longrightarrow> touch k ts = ts"
  by (auto simp: touch_def status_of_def is_active_def split: option.splits)

lemma set_status_fields [simp]:
  "task_status (set_status k v s) = AList.update k v (task_status s)"
  "last_sent_icon (set_status k v s) = last_sent_icon s"
  "input_queue (set_status k v s) = input_queue s"
  "output_queue (set_status k v s) = output_queue s"
  "printed (set_status k v s) = printed s"
  "files (set_status k v s) = files s"
  "clock (set_status k v s) = clock s"
  "sleeps (set_status k v s) = sleeps s"
  "launched (set_status k v s) = launched s"
  "piped (set_status k v s) = piped s"
  "threads (set_status k v s) = threads s"
  "jobs (set_status k v s) = jobs s"
  by (simp_all add: set_status_def)

lemma update_systray_fields [simp]:
  "task_status (update_systray h i s) = task_status s"
  "input_queue (update_systray h i s) = input_queue s"
  "printed (update_systray h i s) = printed s"
  "files (update_systray h i s) = files s"
  "clock (update_systray h i s) = clock s"
  "sleeps (update_systray h i s) = sleeps s"
  "launched (update_systray h i s) = launched s"
  "piped (update_systray h i s) = piped s"
  "threads (update_systray h i s) = threads s"
  "jobs (update_systray h i s) = jobs s"
  by (simp_all add: update_systray_def Let_def)

lemma update_systray_queue:
  "\<exists>ic. output_queue (update_systray h i s) = output_queue s @ [UpdateSystray h ic]"
  by (simp add: update_systray_def Let_def)

lemma output_line_fields [simp]:
  "task_status (output_line l s) = task_status s"
  "input_queue (output_line l s) = input_queue s"
  "printed (output_line l s) = printed s @ [(clock s, l)]"
  "files (output_line l s) = files s"
  "clock (output_line l s) = clock s"
  "sleeps (output_line l s) = sleeps s"
  "launched (output_line l s) = launched s"
  "piped (output_line l s) = piped s"
  "threads (output_line l s) = threads s"
  "jobs (output_line l s) = jobs s"
  by (simp_all add: output_line_def)

lemma output_line_queue:
  "\<exists>ic. output_queue (output_line l s) = output_queue s @ [UpdateSystray (Some l) ic]"
  by (simp add: output_line_def update_systray_def Let_def)

lemma after_pause_fields [simp]:
  "input_queue (after_pause pz s) = input_queue s"
  "output_queue (after_pause pz s) = output_queue s"
  "printed (after_pause pz s) = printed s"
  "files (after_pause pz s) = files s"
  "clock (after_pause pz s) = clock s + waited pz"
  "sleeps (after_pause pz s) = sleeps s"
  "launched (after_pause pz s) = launched s"
  "piped (after_pause pz s) = piped s"
  "threads (after_pause pz s) = threads s"
  "jobs (after_pause pz s) = jobs s"
  "last_sent_icon (after_pause pz s) = last_sent_icon s"
  by (simp_all add: after_pause_def)

text \<open>One line of the loop, as a step on the loop's variables.\<close>

lemma read_lines_Writes:
  "read_lines title target t0 (Writes pz (Some text) p q) n st lu s =
     read_lines title target t0
       (if status_of (task_status (after_pause pz s)) title = CANCEL_REQUESTED then q else p)
       (n + 1) (add_stats st (strip text))
       (if 1000 < clock s + waited pz - lu then clock s + waited pz else lu)
       (if 1000 < clock s + waited pz - lu
        then update_systray
               (Some (progress_text title target (clock s + waited pz - t0) (n + 1) (strip text)))
               None ((after_pause pz s)\<lparr>piped := piped s @ [Some text]\<rparr>)
        else (after_pause pz s)\<lparr>piped := piped s @ [Some text]\<rparr>)"
  by (simp add: Let_def after_pause_def)

lemma read_lines_step:
  "\<exists>lu' s1.
     read_lines title target t0 (Writes pz (Some tx) p q) n st lu s =
       read_lines title target t0
         (if status_of (task_status (after_pause pz s)) title = CANCEL_REQUESTED then q else p)
         (Suc n) (add_stats st (strip tx)) lu' s1
     \<and> files s1 = files s \<and> launched s1 = launched s \<and> input_queue s1 = input_queue s
     \<and> sleeps s1 = sleeps s \<and> threads s1 = threads s \<and> jobs s1 = jobs s
     \<and> printed s1 = printed s \<and> piped s1 = piped s @ [Some tx]
     \<and> task_status s1 = task_status (after_pause pz s) \<and> clock s1 = clock s + waited pz"
proof (cases "1000 < clock s + waited pz - lu")
  case True
  show ?thesis
    apply (rule exI [of _ "clock s + waited pz"])
    apply (rule exI [of _ "update_systray
               (Some (progress_text title target (clock s + waited pz - t0) (n + 1) (strip tx)))
               None ((after_pause pz s)\<lparr>piped := piped s @ [Some tx]\<rparr>)"])
    using True by (simp del: read_lines.simps add: read_lines_Writes)
next
  case False
  show ?thesis
    apply (rule exI [of _ lu])
    apply (rule exI [of _ "(after_pause pz s)\<lparr>piped := piped s @ [Some tx]\<rparr>"])
    using False by (simp del: read_lines.simps add: read_lines_Writes)
qed

lemma read_lines_frame:
  "read_lines title target t0 p n st lu s = r \<Longrightarrow>
   s' = (case r of Inl (e, x) \<Rightarrow> x | Inr (v, x) \<Rightarrow> x) \<Longrightarrow>
   files s' = files s \<and> launched s' = launched s \<and> input_queue s' = input_queue s
   \<and> sleeps s' = sleeps s \<and> threads s' = threads s \<and> jobs s' = jobs s"
proof (induction p arbitrary: n st lu s r s')
  case (Returns pz rc)
  then show ?case by auto
next
  case (Writes pz raw p q)
  show ?case
  proof (cases raw)
    case None
    with Writes.prems show ?thesis by auto
  next
    case (Some tx)
    from read_lines_step [of title target t0 pz tx p q n st lu s] obtain lu' s1 where
      step: "read_lines title target t0 (Writes pz (Some tx) p q) n st lu s =
       read_lines title target t0
         (if status_of (task_status (after_pause pz s)) title = CANCEL_REQUESTED then q else p)
         (Suc n) (add_stats st (strip tx)) lu' s1"
      and fr: "files s1 = files s \<and> launched s1 = launched s \<and> input_queue s1 = input_queue s
     \<and> sleeps s1 = sleeps s \<and> threads s1 = threads s \<and> jobs s1 = jobs s" by blast
    show ?thesis
    proof (cases "status_of (task_status (after_pause pz s)) title = CANCEL_REQUESTED")
      case True
      with step Writes.prems(1) Some
      have "read_lines title target t0 q (Suc n) (add_stats st (strip tx)) lu' s1 = r" by simp
      from Writes.IH(2) [OF this Writes.prems(2)] fr show ?thesis by simp
    next
      case False
      with step Writes.prems(1) Some
      have "read_lines title target t0 p (Suc n) (add_stats st (strip tx)) lu' s1 = r" by simp
      from Writes.IH(1) [OF this Writes.prems(2)] fr show ?thesis by simp
    qed
  qed
qed

lemma read_lines_count:
  "read_lines title target t0 p n st lu s = Inr ((m, st', rc), s') \<Longrightarrow>
   m + length (piped s) = n + length (piped s')"
proof (induction p arbitrary: n st lu s)
  case (Returns pz rc)
  then show ?case by auto
next
  case (Writes pz raw p q)
  show ?case
  proof (cases raw)
    case None
    with Writes.prems show ?thesis by auto
  next
    case (Some tx)
    from read_lines_step [of title target t0 pz tx p q n st lu s] obtain lu' s1 where
      step: "read_lines title target t0 (Writes pz (Some tx) p q) n st lu s =
       read_lines title target t0
         (if status_of (task_status (after_pause pz s)) title = CANCEL_REQUESTED then q else p)
         (Suc n) (add_stats st (strip tx)) lu' s1"
      and fr: "piped s1 = piped s @ [Some tx]" by blast
    show ?thesis
    proof (cases "status_of (task_status (after_pause pz s)) title = CANCEL_REQUESTED")
      case True
      with step Writes.prems(1) Some
      have "read_lines title target t0 q (Suc n) (add_stats st (strip tx)) lu' s1
          = Inr ((m, st', rc), s')" by simp
      from Writes.IH(2) [OF this] fr show ?thesis by simp
    next
      case False
      with step Writes.prems(1) Some
      have "read_lines title target t0 p (Suc n) (add_stats st (strip tx)) lu' s1
          = Inr ((m, st', rc), s')" by simp
      from Writes.IH(1) [OF this] fr show ?thesis by simp
    qed
  qed
qed

subsection \<open>Process supervisor\<close>






subsection \<open>Handlers: helper facts\<close>

lemma sleep_fields [simp]:
  "task_status (sleep n s) = task_status s"
  "last_sent_icon (sleep n s) = last_sent_icon s"
  "input_queue (sleep n s) = input_queue s"
  "output_queue (sleep n s) = output_queue s"
  "printed (sleep n s) = printed s"
  "files (sleep n s) = files s"
  "clock (sleep n s) = clock s + 1000 * n"
  "sleeps (sleep n s) = sleeps s @ [n]"
  "launched (sleep n s) = launched s"
  "piped (sleep n s) = piped s"
  "threads (sleep n s) = threads s"
  "jobs (sleep n s) = jobs s"
  by (simp_all add: sleep_def)

lemma task_is_running_active:
  "is_active (status_of (task_status s) k) \<Longrightarrow> task_is_running k s = (True, s)"
  by (simp add: task_is_running_def active_present)

lemma task_is_running_inactive:
  "\<not> is_active (status_of (task_status s) k) \<Longrightarrow>
   task_is_running k s = (False, s\<lparr>task_status := touch k (task_status s)\<rparr>)"
  by (simp add: task_is_running_def)

text \<open>The supervisor touches neither files nor queues; it returns only with the task finished.\<close>

lemma process_exited_frame:
  assumes "process_exited title command t0 n st rc s = r"
    and "s' = (case r of Inl (e, x) \<Rightarrow> x | Inr (v, x) \<Rightarrow> x)"
  shows "files s' = files s \<and> input_queue s' = input_queue s \<and> sleeps s' = sleeps s
    \<and> threads s' = threads s \<and> jobs s' = jobs s \<and> launched s' = launched s
    \<and> (\<forall>v x. r = Inr (v, x) \<longrightarrow> status_of (task_status s') title = FINISHED)"
  using assms by (auto simp: process_exited_def split: if_splits)

lemma run_process_frame:
  assumes "run_process_and_update_systray popen title command target s = r"
    and "s' = (case r of Inl (e, x) \<Rightarrow> x | Inr (v, x) \<Rightarrow> x)"
  shows "files s' = files s \<and> input_queue s' = input_queue s \<and> sleeps s' = sleeps s
    \<and> threads s' = threads s \<and> jobs s' = jobs s
    \<and> (launched s' = launched s \<or> launched s' = launched s @ [command])
    \<and> (\<forall>v x. r = Inr (v, x) \<longrightarrow> status_of (task_status s') title = FINISHED)"
proof -
  define s1 where "s1 = output_line (''Running '' @ title @ '': started'') (set_status title RUNNING s)"
  have s1: "files s1 = files s" "input_queue s1 = input_queue s" "sleeps s1 = sleeps s"
    "threads s1 = threads s" "jobs s1 = jobs s" "launched s1 = launched s" "clock s1 = clock s"
    by (simp_all add: s1_def)
  show ?thesis
  proof (cases "popen command")
    case (Inl ex)
    then have r: "r = Inl (ex, s1)"
      using assms(1) by (simp add: run_process_and_update_systray_def Let_def s1_def)
    then have "s' = s1" using assms(2) by simp
    with s1 r show ?thesis by simp
  next
    case (Inr p)
    define s1l where "s1l = s1\<lparr>launched := launched s1 @ [command]\<rparr>"
    define rl where "rl = read_lines title target (clock s1) p 0 [] (clock s1) s1l"
    have s1l: "files s1l = files s" "input_queue s1l = input_queue s" "sleeps s1l = sleeps s"
      "threads s1l = threads s" "jobs s1l = jobs s" "launched s1l = launched s @ [command]"
      using s1 by (simp_all add: s1l_def)
    from assms(1) have "r = (case popen command of
           Inl ex \<Rightarrow> Inl (ex, s1)
         | Inr process \<Rightarrow>
             (case read_lines title target (clock s1) process 0 [] (clock s1)
                     (s1\<lparr>launched := launched s1 @ [command]\<rparr>) of
                Inl e \<Rightarrow> Inl e
              | Inr ((n, st, rc), s2) \<Rightarrow> process_exited title command (clock s1) n st rc s2))"
      unfolding run_process_and_update_systray_def Let_def s1_def by (rule sym)
    then have run: "r = (case rl of Inl e \<Rightarrow> Inl e
                   | Inr ((n, st, rc), s2) \<Rightarrow> process_exited title command (clock s1) n st rc s2)"
      unfolding Inr rl_def s1l_def by (simp only: sum.case)
    show ?thesis
    proof (cases rl)
      case (Inl e)
      obtain ex x where e: "e = (ex, x)" by (cases e)
      from Inl e run have r: "r = Inl (ex, x)" by simp
      then have "s' = x" using assms(2) by simp
      moreover from read_lines_frame [OF rl_def [symmetric], of x] Inl e
      have "files x = files s1l \<and> launched x = launched s1l \<and> input_queue x = input_queue s1l
        \<and> sleeps x = sleeps s1l \<and> threads x = threads s1l \<and> jobs x = jobs s1l" by simp
      ultimately show ?thesis using s1l r by simp
    next
      case (Inr res)
      obtain n st rc s2 where res: "res = ((n, st, rc), s2)" by (cases res) auto
      from Inr res run have r: "process_exited title command (clock s1) n st rc s2 = r" by simp
      from read_lines_frame [OF rl_def [symmetric], of s2] Inr res
      have s2: "files s2 = files s1l \<and> launched s2 = launched s1l \<and> input_queue s2 = input_queue s1l
        \<and> sleeps s2 = sleeps s1l \<and> threads s2 = threads s1l \<and> jobs s2 = jobs s1l" by simp
      from process_exited_frame [OF r assms(2)] s2 s1l show ?thesis by simp
    qed
  qed
qed

subsection \<open>Start requests for an active task\<close>

lemma run_backup_active:
  "is_active (status_of (task_status s) (backup_title c)) \<Longrightarrow>
   run_backup popen c b s = output_line (backup_title c @ '' is already running, skipping'') s"
  by (simp add: run_backup_def run_backup_try_def task_is_running_active)

lemma run_post_backup_active:
  "is_active (status_of (task_status s) (post_backup_title c)) \<Longrightarrow>
   run_post_backup popen c b s =
     output_line (post_backup_title c @ '' is already running, skipping'')
       (if b then sleep 10 s else s)"
  by (simp add: run_post_backup_def run_post_backup_try_def task_is_running_active Let_def)

lemma run_post_backup_delay:
  assumes "\<not> is_active (status_of (task_status s) (post_backup_title c))"
    and "is_active (status_of (task_status s) (backup_title c))"
  shows "run_post_backup popen c b s =
     (let s2 = (if b then sleep 10 s else s)\<lparr>task_status := touch (post_backup_title c) (task_status s)\<rparr>;
          s4 = sleep 30 (output_line (backup_title c @ '' is still running, delaying '' @
                                        post_backup_title c) s2)
      in s4\<lparr>input_queue := input_queue s4 @ [StartPostBackup c b]\<rparr>)"
proof -
  have t: "touch (backup_title c) (touch (post_backup_title c) (task_status s))
      = touch (post_backup_title c) (task_status s)"
    using assms(2) by (simp add: active_present)
  show ?thesis
    using assms by (cases b) (simp_all add: run_post_backup_def run_post_backup_try_def Let_def
      task_is_running_def t)
qed

subsection \<open>Post-backup tasks and the running backup\<close>

lemma run_post_backup_launch:
  "launched (run_post_backup popen c b s) = launched s
   \<or> (launched (run_post_backup popen c b s) = launched s @ [post_backup_command c]
       \<and> \<not> is_active (status_of (task_status s) (backup_title c))
       \<and> \<not> is_active (status_of (task_status s) (post_backup_title c)))"
proof (cases "is_active (status_of (task_status s) (post_backup_title c))")
  case True
  then show ?thesis by (cases b) (simp_all add: run_post_backup_active)
next
  case npb: False
  show ?thesis
  proof (cases "is_active (status_of (task_status s) (backup_title c))")
    case True
    show ?thesis
      by (cases b) (simp_all add: run_post_backup_delay [OF npb True] Let_def)
  next
    case nb: False
    define s0 where "s0 = (if b then sleep 10 s else s)"
    define s2 where "s2 = s0\<lparr>task_status := touch (backup_title c) (touch (post_backup_title c) (task_status s))\<rparr>"
    define r where "r = run_process_and_update_systray popen (post_backup_title c) (post_backup_command c) 0 s2"
    define x where "x = (case r of Inl (e, x) \<Rightarrow> x | Inr (v, x) \<Rightarrow> x)"
    have l2: "launched s2 = launched s" by (simp add: s2_def s0_def)
    from run_process_frame [OF r_def [symmetric] x_def]
    have x: "launched x = launched s \<or> launched x = launched s @ [post_backup_command c]"
      using l2 by simp
    have tr: "run_post_backup_try popen c b s = (case r of Inl e \<Rightarrow> Inl e | Inr (n, s3) \<Rightarrow> Inr s3)"
      using npb nb
      by (cases b) (simp_all add: run_post_backup_try_def Let_def task_is_running_def r_def s2_def s0_def)
    have "launched (run_post_backup popen c b s) = launched x"
      unfolding run_post_backup_def tr x_def
      by (auto split: sum.splits prod.splits)
    with x npb nb show ?thesis by auto
  qed
qed



subsection \<open>The persisted line count\<close>

lemma run_backup_try_inactive:
  "\<not> is_active (status_of (task_status s) (backup_title c)) \<Longrightarrow>
   run_backup_try popen c s =
     (case load_line_count (backup_line_count_file c)
             (s\<lparr>task_status := touch (backup_title c) (task_status s),
                files := rotate_spec (log_file c) (files s)\<rparr>) of
        Inl e \<Rightarrow> Inl e
      | Inr target \<Rightarrow>
          (case run_process_and_update_systray popen (backup_title c) (backup_command c) target
                  (s\<lparr>task_status := touch (backup_title c) (task_status s),
                     files := rotate_spec (log_file c) (files s)\<rparr>) of
             Inl e \<Rightarrow> Inl e
           | Inr (n, s3) \<Rightarrow> Inr (save_line_count (backup_line_count_file c) n s3)))"
  by (simp add: run_backup_try_def task_is_running_inactive rotate_logs_spec cong: sum.case_cong)

lemma load_line_count_state:
  "load_line_count p s = Inl (e, x) \<Longrightarrow> x = s"
  by (auto simp: load_line_count_def split: option.splits)

text \<open>
  Claim C4. For a configuration whose line-count file is none of the ten generations
  of its log: if \<^verbatim>\<open>run_backup\<close> leaves the line-count file with other contents
  than it found, the backup task is \<open>FINISHED\<close>; and whenever the body of its
  \<^verbatim>\<open>try\<close> raises, the handled \<^verbatim>\<open>CalledProcessError\<close> or any other exception, the
  line-count file is as it was.
\<close>

theorem line_count_written_only_when_finished:
  assumes "\<forall>i<10. str_path (backup_line_count_file c) \<noteq> generation (log_file c) i"
  shows "(files (run_backup popen c b s) (str_path (backup_line_count_file c))
            \<noteq> files s (str_path (backup_line_count_file c))
          \<longrightarrow> status_of (task_status (run_backup popen c b s)) (backup_title c) = FINISHED)
       \<and> ((\<exists>ex x. run_backup_try popen c s = Inl (ex, x))
          \<longrightarrow> files (run_backup popen c b s) (str_path (backup_line_count_file c))
              = files s (str_path (backup_line_count_file c)))"
proof (cases "is_active (status_of (task_status s) (backup_title c))")
  case True
  then show ?thesis by (simp add: run_backup_active run_backup_try_def task_is_running_active)
next
  case False
  let ?lcf = "str_path (backup_line_count_file c)"
  define s2 where "s2 = s\<lparr>task_status := touch (backup_title c) (task_status s),
                files := rotate_spec (log_file c) (files s)\<rparr>"
  have f2: "files s2 ?lcf = files s ?lcf"
    using rotate_spec_result(3) [of "log_file c" "files s"] assms by (simp add: s2_def)
  note tr = run_backup_try_inactive [OF False, of popen, folded s2_def]
  show ?thesis
  proof (cases "load_line_count (backup_line_count_file c) s2")
    case (Inl e)
    obtain ex x where e: "e = (ex, x)" by (cases e)
    with Inl have x: "x = s2" by (simp add: load_line_count_state)
    have "run_backup_try popen c s = Inl (ex, s2)" using tr Inl e x by simp
    then show ?thesis using f2 by (simp add: run_backup_def)
  next
    case (Inr target)
    define r where "r = run_process_and_update_systray popen (backup_title c) (backup_command c) target s2"
    define x where "x = (case r of Inl (e, x) \<Rightarrow> x | Inr (v, x) \<Rightarrow> x)"
    from run_process_frame [OF r_def [symmetric] x_def]
    have fx: "files x = files s2"
      and fin: "\<forall>v y. r = Inr (v, y) \<longrightarrow> status_of (task_status x) (backup_title c) = FINISHED"
      by blast+
    have tr2: "run_backup_try popen c s =
        (case r of Inl e \<Rightarrow> Inl e | Inr (n, s3) \<Rightarrow> Inr (save_line_count (backup_line_count_file c) n s3))"
      using tr Inr by (simp add: r_def)
    show ?thesis
    proof (cases r)
      case (Inl e)
      obtain ex y where e: "e = (ex, y)" by (cases e)
      with Inl have "x = y" by (simp add: x_def)
      with fx f2 have "files y ?lcf = files s ?lcf" by simp
      moreover have "run_backup_try popen c s = Inl (ex, y)" using tr2 Inl e by simp
      ultimately show ?thesis by (simp add: run_backup_def)
    next
      case (Inr res)
      obtain n s3 where res: "res = (n, s3)" by (cases res)
      with Inr have "x = s3" by (simp add: x_def)
      with fin Inr res have "status_of (task_status s3) (backup_title c) = FINISHED" by simp
      moreover have "run_backup_try popen c s = Inr (save_line_count (backup_line_count_file c) n s3)"
        using tr2 Inr res by simp
      ultimately show ?thesis by (simp add: run_backup_def save_line_count_def)
    qed
  qed
qed

subsection \<open>Cancellation and the exit code\<close>

lemma run_backup_try_completed:
  fixes c :: BackupConfiguration and s :: state
  defines "s2 \<equiv> s\<lparr>task_status := touch (backup_title c) (task_status s),
                    files := rotate_spec (log_file c) (files s)\<rparr>"
  assumes "\<not> is_active (status_of (task_status s) (backup_title c))"
    and "load_line_count (backup_line_count_file c) s2 = Inr target"
    and "popen (backup_command c) = Inr p"
    and "read_lines (backup_title c) target (clock s) p 0 [] (clock s)
           ((output_line (''Running '' @ backup_title c @ '': started'')
               (set_status (backup_title c) RUNNING s2))
              \<lparr>launched := launched s @ [backup_command c]\<rparr>) = Inr ((n, stats, rc), s3)"
  shows "run_backup_try popen c s =
           (case process_exited (backup_title c) (backup_command c) (clock s) n stats rc s3 of
              Inl e \<Rightarrow> Inl e
            | Inr (m, s4) \<Rightarrow> Inr (save_line_count (backup_line_count_file c) m s4))"
proof -
  have run: "run_process_and_update_systray popen (backup_title c) (backup_command c) target s2 =
      process_exited (backup_title c) (backup_command c) (clock s) n stats rc s3"
    using assms(4,5) by (simp add: run_process_and_update_systray_def Let_def s2_def)
  show ?thesis
    by (rule run_backup_try_inactive [OF assms(2), of popen, folded s2_def,
          unfolded assms(3) sum.case run])
qed

lemma load_line_count_absent:
  "files s (str_path p) = None \<Longrightarrow> load_line_count p s = Inr 0"
  by (simp add: load_line_count_def)

lemma alpha_line_count_apart:
  "\<forall>i<10. str_path (backup_line_count_file alpha) \<noteq> generation (log_file alpha) i"
  by (simp add: generation_def alpha_def alpha_log_def str_path_def BSL_def)

lemma alpha_titles:
  "backup_title alpha = ''Alpha backup''" "post_backup_title alpha = ''Alpha post-backup''"
  by (simp_all add: backup_title_def post_backup_title_def alpha_def)

text \<open>A backup of Alpha started on an empty disk finds no line count.\<close>

lemma alpha_first_backup:
  "\<not> is_active (status_of (task_status init_state) (backup_title alpha))"
  "load_line_count (backup_line_count_file alpha)
     (init_state\<lparr>task_status := touch (backup_title alpha) (task_status init_state),
                 files := rotate_spec (log_file alpha) (files init_state)\<rparr>) = Inr 0"
proof -
  show "\<not> is_active (status_of (task_status init_state) (backup_title alpha))"
    by (simp add: init_state_def status_of_def is_active_def)
  have "rotate_spec (log_file alpha) (files init_state) (str_path (backup_line_count_file alpha))
      = files init_state (str_path (backup_line_count_file alpha))"
    using rotate_spec_result(3) [of "log_file alpha" "files init_state"] alpha_line_count_apart
    by blast
  then show "load_line_count (backup_line_count_file alpha)
     (init_state\<lparr>task_status := touch (backup_title alpha) (task_status init_state),
                 files := rotate_spec (log_file alpha) (files init_state)\<rparr>) = Inr 0"
    by (simp add: load_line_count_absent init_state_def)
qed

text \<open>
  Claim C10. Let a backup be started (its task not active), and let its process be read
  to the end with the table showing the task \<open>CANCEL_REQUESTED\<close> when it exits. If the
  return code is 0, the task ends \<open>FINISHED\<close>, the last message published is the
  success text, and the line-count file is overwritten with the number of lines read.
  Only a return code other than 0 ends the task \<open>FAILED\<close>, and then the line-count
  file is not written.
\<close>

theorem cancelled_backup_exit_code_decides:
  fixes c :: BackupConfiguration and s :: state
  defines "s2 \<equiv> s\<lparr>task_status := touch (backup_title c) (task_status s),
                    files := rotate_spec (log_file c) (files s)\<rparr>"
  assumes "\<not> is_active (status_of (task_status s) (backup_title c))"
    and "load_line_count (backup_line_count_file c) s2 = Inr target"
    and "popen (backup_command c) = Inr p"
    and "read_lines (backup_title c) target (clock s) p 0 [] (clock s)
           ((output_line (''Running '' @ backup_title c @ '': started'')
               (set_status (backup_title c) RUNNING s2))
              \<lparr>launched := launched s @ [backup_command c]\<rparr>) = Inr ((n, stats, rc), s3)"
    and "status_of (task_status s3) (backup_title c) = CANCEL_REQUESTED"
  shows "if rc = 0
         then status_of (task_status (run_backup popen c b s)) (backup_title c) = FINISHED
            \<and> files (run_backup popen c b s) (str_path (backup_line_count_file c)) = Some (str_nat n)
            \<and> n + length (piped s) = length (piped s3)
            \<and> (\<exists>ic. output_queue (run_backup popen c b s) = output_queue s3 @
                  [UpdateSystray
                     (Some (''Finished '' @ backup_title c @ '' at '' @ strftime_I_M_p (clock s3) @
                            '' in '' @ time_string (clock s3 - clock s) @ '':'' @
                            (if stats \<noteq> [] then NL @ stats else []))) ic])
         else status_of (task_status (run_backup popen c b s)) (backup_title c) = FAILED
            \<and> files (run_backup popen c b s) = files s2"
proof -
  note tr = run_backup_try_completed [where popen = popen and c = c and s = s,
      OF assms(2,3,4,5) [unfolded s2_def]]
  have cnt: "n + length (piped s) = length (piped s3)"
    using read_lines_count [OF assms(5)] by (simp add: s2_def)
  have f3: "files s3 = files s2"
    using read_lines_frame [OF assms(5), of s3] by simp
  show ?thesis
  proof (cases "rc = 0")
    case True
    from output_line_queue [of "finished_text (backup_title c) (clock s3) (clock s3 - clock s) stats"
        "set_status (backup_title c) FINISHED s3"]
    obtain ic where "output_queue (output_line (finished_text (backup_title c) (clock s3) (clock s3 - clock s) stats)
        (set_status (backup_title c) FINISHED s3)) = output_queue s3 @
          [UpdateSystray (Some (finished_text (backup_title c) (clock s3) (clock s3 - clock s) stats)) ic]"
      by auto
    then show ?thesis
      using True cnt
      by (simp add: run_backup_def tr process_exited_def save_line_count_def finished_text_def)
  next
    case False
    then show ?thesis
      using f3 by (simp add: run_backup_def tr process_exited_def is_CalledProcessError_def)
  qed
qed

subsection \<open>Example processes\<close>

lemma read_lines_script:
  "\<forall>l\<in>set ls. snd l \<noteq> None \<Longrightarrow>
   \<exists>st s'. read_lines title target t0 (script ls pz rc) n st0 lu s = Inr ((n + length ls, st, rc), s')"
proof (induction ls arbitrary: n st0 lu s)
  case Nil
  show ?case by simp
next
  case (Cons l ls)
  obtain lz raw where l: "l = (lz, raw)" by (cases l)
  with Cons.prems obtain tx where raw: "raw = Some tx" by auto
  from Cons.prems have rest: "\<forall>l\<in>set ls. snd l \<noteq> None" by simp
  from read_lines_step [of title target t0 lz tx "script ls pz rc" "script ls pz rc" n st0 lu s]
  obtain lu' s1 where
    step: "read_lines title target t0 (Writes lz (Some tx) (script ls pz rc) (script ls pz rc)) n st0 lu s =
       read_lines title target t0 (script ls pz rc) (Suc n) (add_stats st0 (strip tx)) lu' s1"
    by auto
  from Cons.IH [OF rest, of "Suc n" "add_stats st0 (strip tx)" lu' s1]
  obtain st s' where "read_lines title target t0 (script ls pz rc) (Suc n) (add_stats st0 (strip tx)) lu' s1
      = Inr ((Suc n + length ls, st, rc), s')" by blast
  with step have "read_lines title target t0 (script ((lz, raw) # ls) pz rc) n st0 lu s
      = Inr ((n + length (l # ls), st, rc), s')"
    using raw by (simp del: read_lines.simps)
  with l show ?case by blast
qed

lemma three_lines_read_any:
  "\<exists>st s'. read_lines title target t0 (three_lines rc) 0 [] lu s = Inr ((3, st, rc), s')"
  using read_lines_script [of "[(quiet, Some ''one''), (quiet, Some ''two''), (quiet, Some ''three'')]"
      title target t0 quiet rc 0 "[]" lu s]
  by (simp add: three_lines_def numeral_3_eq_3 del: read_lines.simps script.simps)

lemma cancelled_late_read:
  assumes "status_of (task_status s) ''Alpha backup'' = RUNNING"
  shows "\<exists>st s'. read_lines ''Alpha backup'' target t0 cancelled_late 0 [] lu s = Inr ((2, st, 0), s')
           \<and> status_of (task_status s') ''Alpha backup'' = CANCEL_REQUESTED"
proof -
  define pz where "pz = \<lparr>waited = 400, meanwhile = [(''Alpha backup'', CANCEL_REQUESTED)]\<rparr>"
  define p2 where "p2 = Writes pz (Some ''two'') (Returns quiet 0) (Returns quiet 0)"
  have ts1: "task_status (after_pause quiet x) = task_status x" for x
    by (simp add: after_pause_def quiet_def)
  from read_lines_step [of "''Alpha backup''" target t0 quiet "''one''" p2 "Returns quiet 1" 0 "[]" lu s]
  obtain lu1 s1 where
    step1: "read_lines ''Alpha backup'' target t0 (Writes quiet (Some ''one'') p2 (Returns quiet 1)) 0 [] lu s =
       read_lines ''Alpha backup'' target t0 p2 (Suc 0) (add_stats [] (strip ''one'')) lu1 s1"
    and t1: "task_status s1 = task_status s"
    using assms by (auto simp: ts1)
  have c2: "status_of (task_status (after_pause pz s1)) ''Alpha backup'' = CANCEL_REQUESTED"
    by (simp add: after_pause_def pz_def)
  from read_lines_step [of "''Alpha backup''" target t0 pz "''two''" "Returns quiet 0" "Returns quiet 0"
      "Suc 0" "add_stats [] (strip ''one'')" lu1 s1]
  obtain lu2 s2 st2 where
    step2: "read_lines ''Alpha backup'' target t0 p2 (Suc 0) (add_stats [] (strip ''one'')) lu1 s1 =
       read_lines ''Alpha backup'' target t0 (Returns quiet 0) (Suc (Suc 0)) st2 lu2 s2"
    and t2: "task_status s2 = task_status (after_pause pz s1)"
    unfolding p2_def by auto
  have "read_lines ''Alpha backup'' target t0 cancelled_late 0 [] lu s
      = Inr ((2, st2, 0), after_pause quiet s2)"
    unfolding cancelled_late_def pz_def [symmetric] p2_def [symmetric] step1 step2
    by (simp add: numeral_2_eq_2)
  moreover have "status_of (task_status (after_pause quiet s2)) ''Alpha backup'' = CANCEL_REQUESTED"
    using c2 t2 by (simp add: ts1)
  ultimately show ?thesis by blast
qed

subsection \<open>Example backups\<close>

lemma alpha_backup_read_three:
  "\<exists>st s3. read_lines (backup_title alpha) 0 (clock init_state) (three_lines rc) 0 [] (clock init_state)
           ((output_line (''Running '' @ backup_title alpha @ '': started'')
               (set_status (backup_title alpha) RUNNING
                  (init_state\<lparr>task_status := touch (backup_title alpha) (task_status init_state),
                              files := rotate_spec (log_file alpha) (files init_state)\<rparr>)))
              \<lparr>launched := launched init_state @ [backup_command alpha]\<rparr>) = Inr ((3, st, rc), s3)"
  by (rule three_lines_read_any)

text \<open>A backup of Alpha that exits with code 1, and one that exits with code 0.\<close>

theorem line_count_written_only_when_finished_witness:
  "files (run_backup (\<lambda>c. Inr (three_lines 1)) alpha False init_state)
       (str_path (backup_line_count_file alpha)) = None
   \<and> status_of (task_status (run_backup (\<lambda>c. Inr (three_lines 0)) alpha False init_state))
       (backup_title alpha) = FINISHED"
proof -
  have none: "files init_state (str_path (backup_line_count_file alpha)) = None"
    by (simp add: init_state_def)
  obtain st1 x1 where r1: "read_lines (backup_title alpha) 0 (clock init_state) (three_lines 1) 0 []
           (clock init_state)
           ((output_line (''Running '' @ backup_title alpha @ '': started'')
               (set_status (backup_title alpha) RUNNING
                  (init_state\<lparr>task_status := touch (backup_title alpha) (task_status init_state),
                              files := rotate_spec (log_file alpha) (files init_state)\<rparr>)))
              \<lparr>launched := launched init_state @ [backup_command alpha]\<rparr>) = Inr ((3, st1, 1), x1)"
    using alpha_backup_read_three [of 1] by blast
  obtain st0 x0 where r0: "read_lines (backup_title alpha) 0 (clock init_state) (three_lines 0) 0 []
           (clock init_state)
           ((output_line (''Running '' @ backup_title alpha @ '': started'')
               (set_status (backup_title alpha) RUNNING
                  (init_state\<lparr>task_status := touch (backup_title alpha) (task_status init_state),
                              files := rotate_spec (log_file alpha) (files init_state)\<rparr>)))
              \<lparr>launched := launched init_state @ [backup_command alpha]\<rparr>) = Inr ((3, st0, 0), x0)"
    using alpha_backup_read_three [of 0] by blast
  have p1: "(\<lambda>c. Inr (three_lines 1)) (backup_command alpha) = (Inr (three_lines 1) :: exn + proc)"
    by simp
  have p0: "(\<lambda>c. Inr (three_lines 0)) (backup_command alpha) = (Inr (three_lines 0) :: exn + proc)"
    by simp
  have raised: "\<exists>ex x. run_backup_try (\<lambda>c. Inr (three_lines 1)) alpha init_state = Inl (ex, x)"
    using run_backup_try_completed [where popen = "\<lambda>c. Inr (three_lines 1)" and c = alpha
        and s = init_state, OF alpha_first_backup p1 r1]
    by (simp add: process_exited_def)
  have tr0: "run_backup_try (\<lambda>c. Inr (three_lines 0)) alpha init_state =
      Inr (save_line_count (backup_line_count_file alpha) 3
             (output_line (finished_text (backup_title alpha) (clock x0) (clock x0 - clock init_state) st0)
                (set_status (backup_title alpha) FINISHED x0)))"
    using run_backup_try_completed [where popen = "\<lambda>c. Inr (three_lines 0)" and c = alpha
        and s = init_state, OF alpha_first_backup p0 r0]
    by (simp add: process_exited_def)
  have written: "files (run_backup (\<lambda>c. Inr (three_lines 0)) alpha False init_state)
       (str_path (backup_line_count_file alpha)) \<noteq> files init_state (str_path (backup_line_count_file alpha))"
    by (simp add: run_backup_def tr0 save_line_count_def none)
  from line_count_written_only_when_finished [OF alpha_line_count_apart,
      of "\<lambda>c. Inr (three_lines 1)" False init_state] raised none
  have A: "files (run_backup (\<lambda>c. Inr (three_lines 1)) alpha False init_state)
       (str_path (backup_line_count_file alpha)) = None" by simp
  from line_count_written_only_when_finished [OF alpha_line_count_apart,
      of "\<lambda>c. Inr (three_lines 0)" False init_state] written
  have B: "status_of (task_status (run_backup (\<lambda>c. Inr (three_lines 0)) alpha False init_state))
       (backup_title alpha) = FINISHED" by blast
  from A B show ?thesis by blast
qed

text \<open>Cancelled while the second line was on its way; the process still exits with 0.\<close>

theorem cancelled_backup_exit_code_decides_witness:
  "status_of (task_status (run_backup (\<lambda>c. Inr cancelled_late) alpha False init_state))
       (backup_title alpha) = FINISHED
   \<and> files (run_backup (\<lambda>c. Inr cancelled_late) alpha False init_state)
       (str_path (backup_line_count_file alpha)) = Some ''2''"
proof -
  define start where "start = (output_line (''Running '' @ backup_title alpha @ '': started'')
               (set_status (backup_title alpha) RUNNING
                  (init_state\<lparr>task_status := touch (backup_title alpha) (task_status init_state),
                              files := rotate_spec (log_file alpha) (files init_state)\<rparr>)))
              \<lparr>launched := launched init_state @ [backup_command alpha]\<rparr>"
  have "status_of (task_status start) ''Alpha backup'' = RUNNING"
    by (simp add: start_def alpha_titles)
  from cancelled_late_read [OF this, of 0 "clock init_state" "clock init_state"]
  obtain st s3 where
    r: "read_lines (backup_title alpha) 0 (clock init_state) cancelled_late 0 [] (clock init_state) start
          = Inr ((2, st, 0), s3)"
    and c: "status_of (task_status s3) (backup_title alpha) = CANCEL_REQUESTED"
    by (auto simp: alpha_titles)
  have p: "(\<lambda>c. Inr cancelled_late) (backup_command alpha) = (Inr cancelled_late :: exn + proc)"
    by simp
  have two: "str_nat 2 = ''2''" by code_simp
  from cancelled_backup_exit_code_decides [where popen = "\<lambda>c. Inr cancelled_late" and c = alpha
      and s = init_state and b = False, OF alpha_first_backup p r [unfolded start_def] c]
  show ?thesis by (simp add: two)
qed

subsection \<open>Dispatch loop\<close>

lemma update_systray_given:
  "update_systray h (Some ic) s =
     s\<lparr>last_sent_icon := Some ic,
       output_queue := output_queue s @
         [UpdateSystray h (if Some ic = last_sent_icon s then None else Some ic)]\<rparr>"
  by (simp add: update_systray_def Let_def)

lemma cancel_fields [simp]:
  "input_queue (cancel_backup c s) = input_queue s"
  "jobs (cancel_backup c s) = jobs s"
  "input_queue (cancel_post_backup c s) = input_queue s"
  "jobs (cancel_post_backup c s) = jobs s"
  by (simp_all add: cancel_backup_def cancel_post_backup_def task_is_running_def split: prod.splits bool.splits)

lemma schedule_fields [simp]:
  "input_queue (enable_scheduled_backups c s) = input_queue s"
  "jobs (enable_scheduled_backups c s) =
     filter (\<lambda>j. tag j \<noteq> name c) (jobs s) @
       [\<lparr>tag = name c, every_hours = backup_schedule_hours c, at_minute = 0,
         enqueues = StartBackup c True\<rparr>,
        \<lparr>tag = name c, every_hours = post_backup_schedule_hours c, at_minute = 1,
         enqueues = StartPostBackup c True\<rparr>]"
  "input_queue (disable_scheduled_backups c s) = input_queue s"
  "jobs (disable_scheduled_backups c s) = filter (\<lambda>j. tag j \<noteq> name c) (jobs s)"
  by (simp_all add: enable_scheduled_backups_def disable_scheduled_backups_def schedule_clear_def Let_def)

lemma dispatch_breaks_iff:
  "(\<exists>s'. dispatch item s = Inr (True, s')) \<longleftrightarrow> item = Exit"
  by (cases item) (simp_all add: dispatch_def)

lemma dispatch_no_exit:
  assumes "item \<noteq> Exit" and "no_exit_pending s"
  shows "case dispatch item s of
           Inl (ex, s') \<Rightarrow> s' = s
         | Inr (brk, s') \<Rightarrow> \<not> brk \<and> no_exit_pending s'"
  using assms by (cases item) (auto simp: dispatch_def no_exit_pending_def)

lemma iteration_no_exit:
  assumes "no_exit_pending s" and "Exit \<notin> set (arrivals tk)"
  shows "fst (iteration tk s) = Looping \<and> no_exit_pending (snd (iteration tk s))"
proof -
  define s1 where "s1 = run_pending (is_due tk) (s\<lparr>input_queue := input_queue s @ arrivals tk\<rparr>)"
  have inv1: "no_exit_pending s1"
    using assms by (auto simp: s1_def run_pending_def no_exit_pending_def)
  show ?thesis
  proof (cases "input_queue s1")
    case Nil
    then show ?thesis
      using inv1 by (simp add: iteration_def Let_def s1_def [symmetric] no_exit_pending_def)
  next
    case (Cons item rest)
    have ne: "item \<noteq> Exit" using inv1 Cons by (auto simp: no_exit_pending_def)
    have inv2: "no_exit_pending (s1\<lparr>input_queue := rest\<rparr>)"
      using inv1 Cons by (auto simp: no_exit_pending_def)
    from dispatch_no_exit [OF ne inv2] show ?thesis
      using Cons inv2
      by (auto simp: iteration_def Let_def s1_def [symmetric] no_exit_pending_def
               split: sum.splits prod.splits bool.splits)
  qed
qed

lemma run_loop_no_exit:
  "no_exit_pending s \<Longrightarrow> \<forall>tk\<in>set ticks. Exit \<notin> set (arrivals tk) \<Longrightarrow>
   fst (run_loop ticks s) = Looping"
proof (induction ticks arbitrary: s)
  case Nil
  show ?case by simp
next
  case (Cons tk ticks)
  from Cons.prems have a: "Exit \<notin> set (arrivals tk)" and r: "\<forall>tk\<in>set ticks. Exit \<notin> set (arrivals tk)"
    by simp_all
  from iteration_no_exit [OF Cons.prems(1) a]
  obtain s1 where it: "iteration tk s = (Looping, s1)" and inv: "no_exit_pending s1"
    by (cases "iteration tk s") auto
  from Cons.IH [OF inv r] it show ?case by simp
qed


lemma no_exit_pending_output [simp]: "no_exit_pending (output_line l s) = no_exit_pending s"
  by (simp add: no_exit_pending_def)

lemma iteration_raise:
  assumes "input_queue (run_pending (is_due tk) (s\<lparr>input_queue := input_queue s @ arrivals tk\<rparr>))
             = item # rest"
    and "dispatch item
           ((run_pending (is_due tk) (s\<lparr>input_queue := input_queue s @ arrivals tk\<rparr>))
              \<lparr>input_queue := rest\<rparr>) = Inl (ex, s2)"
  shows "iteration tk s =
           (Looping,
            update_systray None (Some ''./icons/error.ico'')
              (output_line (''Error in background backup thread: '' @ str_exn ex @ NL @ format_exc ex)
                 s2))"
  using assms by (simp add: iteration_def Let_def)

lemma iteration_exits_iff:
  "fst (iteration tk s) = Exited \<longleftrightarrow>
   (\<exists>rest. input_queue (run_pending (is_due tk) (s\<lparr>input_queue := input_queue s @ arrivals tk\<rparr>))
              = Exit # rest)"
proof -
  define s1 where "s1 = run_pending (is_due tk) (s\<lparr>input_queue := input_queue s @ arrivals tk\<rparr>)"
  show ?thesis
  proof (cases "input_queue s1")
    case Nil
    then show ?thesis by (simp add: iteration_def Let_def s1_def [symmetric])
  next
    case (Cons item rest)
    show ?thesis
    proof (cases "item = Exit")
      case True
      with Cons show ?thesis
        by (simp add: iteration_def Let_def s1_def [symmetric] dispatch_def)
    next
      case False
      with dispatch_breaks_iff [of item "s1\<lparr>input_queue := rest\<rparr>"]
      have "\<forall>s'. dispatch item (s1\<lparr>input_queue := rest\<rparr>) \<noteq> Inr (True, s')" by simp
      with Cons False show ?thesis
        by (auto simp: iteration_def Let_def s1_def [symmetric]
                 split: sum.splits prod.splits bool.splits)
    qed
  qed
qed

text \<open>
  Claim C9. In a pass of the dispatch loop, an exception raised while the request
  taken from the queue is handled is caught: its text is logged and published, the
  error icon is published and becomes the last icon sent, and the loop goes on. A
  request of an unknown class (an \<^verbatim>\<open>UpdateSystray\<close> on the input queue included)
  raises such an exception, a \<^verbatim>\<open>TypeError\<close>. A pass leaves the loop exactly when the
  request it takes from the queue is \<^verbatim>\<open>Exit\<close>; after any other pass the loop runs its
  next pass; and as long as no \<^verbatim>\<open>Exit\<close> is waiting, arrives or is scheduled, the loop
  is still running after any number of passes.
\<close>

theorem dispatch_loop_only_exit_ends:
  "(\<forall>item rest ex s2.
       input_queue (run_pending (is_due tk) (s\<lparr>input_queue := input_queue s @ arrivals tk\<rparr>))
         = item # rest
       \<and> dispatch item
           ((run_pending (is_due tk) (s\<lparr>input_queue := input_queue s @ arrivals tk\<rparr>))
              \<lparr>input_queue := rest\<rparr>) = Inl (ex, s2)
     \<longrightarrow> fst (iteration tk s) = Looping
       \<and> printed (snd (iteration tk s)) = printed s2 @
            [(clock s2, ''Error in background backup thread: '' @ str_exn ex @ NL @ format_exc ex)]
       \<and> (\<exists>ic1 ic2. output_queue (snd (iteration tk s)) = output_queue s2 @
            [UpdateSystray (Some (''Error in background backup thread: '' @ str_exn ex @ NL @
                                  format_exc ex)) ic1,
             UpdateSystray None ic2])
       \<and> last_sent_icon (snd (iteration tk s)) = Some ''./icons/error.ico'')
   \<and> (\<forall>tn. dispatch (Unknown tn) s =
          Inl (TypeError (''Backup thread got unknown type in input queue: '' @
                          type_repr (Unknown tn)), s))
   \<and> (\<forall>h i. dispatch (UpdateSystray h i) s =
          Inl (TypeError (''Backup thread got unknown type in input queue: '' @
                          type_repr (UpdateSystray h i)), s))
   \<and> (fst (iteration tk s) = Exited \<longleftrightarrow>
        (\<exists>rest. input_queue (run_pending (is_due tk) (s\<lparr>input_queue := input_queue s @ arrivals tk\<rparr>))
                  = Exit # rest))
   \<and> (\<forall>rest. fst (iteration tk s) = Looping \<longrightarrow>
          run_loop (tk # rest) s = run_loop rest (snd (iteration tk s)))
   \<and> (\<forall>ticks. no_exit_pending s \<and> (\<forall>t\<in>set ticks. Exit \<notin> set (arrivals t)) \<longrightarrow>
          fst (run ticks s) = Looping)"
proof -
  have A: "fst (iteration tk s) = Looping
       \<and> printed (snd (iteration tk s)) = printed s2 @
            [(clock s2, ''Error in background backup thread: '' @ str_exn ex @ NL @ format_exc ex)]
       \<and> (\<exists>ic1 ic2. output_queue (snd (iteration tk s)) = output_queue s2 @
            [UpdateSystray (Some (''Error in background backup thread: '' @ str_exn ex @ NL @
                                  format_exc ex)) ic1,
             UpdateSystray None ic2])
       \<and> last_sent_icon (snd (iteration tk s)) = Some ''./icons/error.ico''"
    if h: "input_queue (run_pending (is_due tk) (s\<lparr>input_queue := input_queue s @ arrivals tk\<rparr>))
         = item # rest"
       "dispatch item
           ((run_pending (is_due tk) (s\<lparr>input_queue := input_queue s @ arrivals tk\<rparr>))
              \<lparr>input_queue := rest\<rparr>) = Inl (ex, s2)"
    for item rest ex s2
  proof -
    define msg where "msg = ''Error in background backup thread: '' @ str_exn ex @ NL @ format_exc ex"
    from output_line_queue [of msg s2] obtain ic1 where
      q: "output_queue (output_line msg s2) = output_queue s2 @ [UpdateSystray (Some msg) ic1]"
      by blast
    have "iteration tk s = (Looping, update_systray None (Some ''./icons/error.ico'') (output_line msg s2))"
      unfolding msg_def by (rule iteration_raise [OF h])
    then show ?thesis
      using q unfolding msg_def [symmetric] by (simp add: update_systray_given)
  qed
  have B: "dispatch (Unknown tn) s =
          Inl (TypeError (''Backup thread got unknown type in input queue: '' @
                          type_repr (Unknown tn)), s)" for tn
    by (simp add: dispatch_def)
  have C: "dispatch (UpdateSystray h i) s =
          Inl (TypeError (''Backup thread got unknown type in input queue: '' @
                          type_repr (UpdateSystray h i)), s)" for h i
    by (simp add: dispatch_def)
  have D: "run_loop (tk # rest) s = run_loop rest (snd (iteration tk s))"
    if "fst (iteration tk s) = Looping" for rest
    using that by (cases "iteration tk s") simp
  have E: "fst (run ticks s) = Looping"
    if "no_exit_pending s \<and> (\<forall>t\<in>set ticks. Exit \<notin> set (arrivals t))" for ticks
    unfolding run_def using that by (intro run_loop_no_exit) simp_all
  from A B C D E iteration_exits_iff [of tk s] show ?thesis by blast
qed

text \<open>An object of an unknown class is taken from the queue; an idle loop goes on.\<close>

theorem dispatch_loop_only_exit_ends_witness:
  "fst (iteration idle_tick unknown_then_exit) = Looping
   \<and> last_sent_icon (snd (iteration idle_tick unknown_then_exit)) = Some ''./icons/error.ico''
   \<and> fst (run [idle_tick, idle_tick] init_state) = Looping"
proof -
  have q: "input_queue (run_pending (is_due idle_tick)
              (unknown_then_exit\<lparr>input_queue := input_queue unknown_then_exit @ arrivals idle_tick\<rparr>))
         = Unknown ''str'' # [Exit]"
    by (simp add: run_pending_def idle_tick_def unknown_then_exit_def init_state_def)
  have d: "dispatch (Unknown ''str'')
           ((run_pending (is_due idle_tick)
              (unknown_then_exit\<lparr>input_queue := input_queue unknown_then_exit @ arrivals idle_tick\<rparr>))
              \<lparr>input_queue := [Exit]\<rparr>) =
         Inl (TypeError (''Backup thread got unknown type in input queue: '' @ type_repr (Unknown ''str'')),
              (run_pending (is_due idle_tick)
              (unknown_then_exit\<lparr>input_queue := input_queue unknown_then_exit @ arrivals idle_tick\<rparr>))
              \<lparr>input_queue := [Exit]\<rparr>)"
    by (simp add: dispatch_def)
  have n: "no_exit_pending init_state \<and> (\<forall>t\<in>set [idle_tick, idle_tick]. Exit \<notin> set (arrivals t))"
    by (simp add: no_exit_pending_def init_state_def idle_tick_def)
  from dispatch_loop_only_exit_ends [of idle_tick unknown_then_exit] q d
  have "fst (iteration idle_tick unknown_then_exit) = Looping
   \<and> last_sent_icon (snd (iteration idle_tick unknown_then_exit)) = Some ''./icons/error.ico''"
    by blast
  moreover from dispatch_loop_only_exit_ends [of idle_tick init_state] n
  have "fst (run [idle_tick, idle_tick] init_state) = Looping" by blast
  ultimately show ?thesis by blast
qed

subsection \<open>The post-backup handler among other threads\<close>

lemma other_threads_fields [simp]:
  "last_sent_icon (other_threads ws s) = last_sent_icon s"
  "input_queue (other_threads ws s) = input_queue s"
  "output_queue (other_threads ws s) = output_queue s"
  "printed (other_threads ws s) = printed s"
  "files (other_threads ws s) = files s"
  "clock (other_threads ws s) = clock s"
  "sleeps (other_threads ws s) = sleeps s"
  "launched (other_threads ws s) = launched s"
  "piped (other_threads ws s) = piped s"
  "threads (other_threads ws s) = threads s"
  "jobs (other_threads ws s) = jobs s"
  by (simp_all add: other_threads_def)

lemma other_threads_none [simp]: "other_threads [] s = s"
  by (simp add: other_threads_def)

lemma at_first_check_fields [simp]:
  "launched (at_first_check g b s) = launched s"
  "piped (at_first_check g b s) = piped s"
  "files (at_first_check g b s) = files s"
  "input_queue (at_first_check g b s) = input_queue s"
  by (simp_all add: at_first_check_def)

lemma at_launch_fields [simp]:
  "launched (at_launch g c b s) = launched s"
  "piped (at_launch g c b s) = piped s"
  "files (at_launch g c b s) = files s"
  "input_queue (at_launch g c b s) = input_queue s"
  by (simp_all add: at_launch_def at_second_check_def at_first_check_def task_is_running_def)

lemma at_second_check_fields [simp]:
  "launched (at_second_check g c b s) = launched s"
  "piped (at_second_check g c b s) = piped s"
  "files (at_second_check g c b s) = files s"
  "input_queue (at_second_check g c b s) = input_queue s"
  by (simp_all add: at_second_check_def task_is_running_def)

text \<open>With no other thread writing, the handler is \<open>run_post_backup\<close>.\<close>

lemma run_post_backup_among_no_gaps:
  "run_post_backup_among no_gaps popen c b s = run_post_backup popen c b s"
proof -
  have "run_post_backup_try_among no_gaps popen c b s = run_post_backup_try popen c b s"
    by (cases b)
       (auto simp: run_post_backup_try_among_def run_post_backup_try_def no_gaps_def Let_def
             split: prod.splits bool.splits)
  then show ?thesis by (simp add: run_post_backup_among_def run_post_backup_def)
qed

text \<open>The three ways through the handler.\<close>

lemma among_skip:
  assumes "is_active (status_of (task_status (at_first_check g b s)) (post_backup_title c))"
  shows "run_post_backup_among g popen c b s =
           output_line (post_backup_title c @ '' is already running, skipping'') (at_first_check g b s)"
  using assms
  by (simp add: run_post_backup_among_def run_post_backup_try_among_def Let_def
        at_first_check_def [symmetric] task_is_running_active)



subsection \<open>Post-backup launches and the checks before them\<close>






subsection \<open>Handlers without a check, and workers that both pass it\<close>

lemma at_first_check_queue [simp]:
  "output_queue (at_first_check g b s) = output_queue s"
  by (simp add: at_first_check_def)

text \<open>The cuts are cuts of the handler: put together again they are \<open>run_backup_try\<close>.\<close>

lemma run_process_steps:
  "run_process_and_update_systray popen title command target s =
     (case start_process popen title command s of
        Inl e \<Rightarrow> Inl e
      | Inr ((p, t), s1) \<Rightarrow> follow_process title command target p t s1)"
  by (simp add: run_process_and_update_systray_def start_process_def follow_process_def Let_def
      split: sum.splits)

lemma run_backup_try_steps:
  "run_backup_try popen c s =
     (case backup_prepare c s of
        Inl r \<Rightarrow> r
      | Inr (n, s2) \<Rightarrow>
          (case start_process popen (backup_title c) (backup_command c) s2 of
             Inl e \<Rightarrow> Inl e
           | Inr ((p, t), s3) \<Rightarrow>
               (case follow_process (backup_title c) (backup_command c) n p t s3 of
                  Inl e \<Rightarrow> Inl e
                | Inr (n1, s4) \<Rightarrow> Inr (save_line_count (backup_line_count_file c) n1 s4))))"
  by (simp add: run_backup_try_def backup_prepare_def run_process_steps
      split: prod.splits bool.splits sum.splits)

text \<open>On an empty disk a worker that reads the task as not active gets to the supervisor.\<close>

lemma rotate_spec_empty: "rotate_spec logf Map.empty = Map.empty"
  by (simp add: rotate_spec_def rename_if_exists_def delete_if_exists_def)

lemma backup_prepare_fresh:
  assumes "\<not> is_active (status_of (task_status s) (backup_title c))"
    and "files s = Map.empty"
  shows "backup_prepare c s = Inr (0, s\<lparr>task_status := touch (backup_title c) (task_status s)\<rparr>)"
proof -
  define s1 where "s1 = s\<lparr>task_status := touch (backup_title c) (task_status s)\<rparr>"
  have f: "files s1 = Map.empty" by (simp add: s1_def assms(2))
  have r: "rotate_logs (log_file c) s1 = Inr s1"
    by (simp add: rotate_logs_spec f rotate_spec_empty)
  have l: "load_line_count (backup_line_count_file c) s1 = Inr 0"
    by (simp add: load_line_count_absent f)
  show ?thesis
    unfolding backup_prepare_def task_is_running_inactive [OF assms(1)] s1_def [symmetric]
    by (simp add: r l)
qed

lemma start_process_started:
  assumes "popen command = Inr p"
  shows "\<exists>t x. start_process popen title command s = Inr ((p, t), x)
           \<and> launched x = launched s @ [command] \<and> piped x = piped s"
  using assms by (simp add: start_process_def Let_def)

lemma two_backup_workers_both_start:
  assumes "\<not> is_active (status_of (task_status s) (backup_title c))"
    and "files s = Map.empty"
    and "popen (backup_command c) = Inr p"
  shows "\<exists>x. two_backup_workers popen c s = Some ((p, p), x)
           \<and> launched x = launched s @ [backup_command c, backup_command c]
           \<and> piped x = piped s"
proof -
  define s1 where "s1 = s\<lparr>task_status := touch (backup_title c) (task_status s)\<rparr>"
  define s2 where "s2 = s1\<lparr>task_status := touch (backup_title c) (task_status s1)\<rparr>"
  have n1: "\<not> is_active (status_of (task_status s1) (backup_title c))"
    using assms(1) by (simp add: s1_def)
  have f1: "files s1 = Map.empty" by (simp add: s1_def assms(2))
  have p1: "backup_prepare c s = Inr (0, s1)"
    unfolding s1_def by (rule backup_prepare_fresh [OF assms(1, 2)])
  have p2: "backup_prepare c s1 = Inr (0, s2)"
    unfolding s2_def by (rule backup_prepare_fresh [OF n1 f1])
  obtain t3 s3 where a3: "start_process popen (backup_title c) (backup_command c) s2 = Inr ((p, t3), s3)"
    and l3: "launched s3 = launched s2 @ [backup_command c]" and q3: "piped s3 = piped s2"
    using start_process_started [where popen = popen, OF assms(3)] by blast
  obtain t4 s4 where a4: "start_process popen (backup_title c) (backup_command c) s3 = Inr ((p, t4), s4)"
    and l4: "launched s4 = launched s3 @ [backup_command c]" and q4: "piped s4 = piped s3"
    using start_process_started [where popen = popen, OF assms(3)] by blast
  have "two_backup_workers popen c s = Some ((p, p), s4)"
    by (simp add: two_backup_workers_def p1 p2 a3 a4)
  moreover have "launched s4 = launched s @ [backup_command c, backup_command c]"
    by (simp add: l4 l3 s2_def s1_def)
  moreover have "piped s4 = piped s" by (simp add: q4 q3 s2_def s1_def)
  ultimately show ?thesis by blast
qed

text \<open>An analysis of a configuration without a log writes its four reports and ends \<open>FINISHED\<close>.\<close>

lemma scan_logs_no_log:
  "files s (str_path logf) = None \<Longrightarrow> scan_logs strptime logf [0..<10] tb s = Inr (tb, s)"
proof -
  assume a: "files s (str_path logf) = None"
  have u: "[0..<10] = 0 # [1..<10]" by (simp add: upt_rec)
  obtain t n where tb: "tb = (t, n)" by (cases tb)
  show ?thesis unfolding u tb by (simp add: a)
qed

lemma write_report_started:
  assumes "\<forall>cmd. popen cmd = Inr p"
  shows "\<exists>x. write_report popen file header ls editor s = Inr x
           \<and> task_status x = task_status s \<and> length (launched x) = Suc (length (launched s))
           \<and> output_queue x = output_queue s \<and> printed x = printed s"
  by (simp add: write_report_def Let_def assms)

lemma analyze_logs_no_log:
  assumes "files s (str_path (log_file c)) = None"
    and "\<forall>cmd. popen cmd = Inr p"
  shows "status_of (task_status (analyze_logs popen strptime c editor s)) (analysis_title c) = FINISHED
       \<and> length (launched (analyze_logs popen strptime c editor s)) = length (launched s) + 4
       \<and> printed (analyze_logs popen strptime c editor s) =
           printed s @ [(clock s, ''Finished analyzing '' @ name c @ '' logs'')]"
proof -
  define s0 where "s0 = set_status (analysis_title c) RUNNING s"
  have f0: "files s0 (str_path (log_file c)) = None" by (simp add: s0_def assms(1))
  note sc = scan_logs_no_log [OF f0, of strptime "(empty_tally, 0)"]
  have "\<exists>x4. analyze_logs_try popen strptime c editor s0 = Inr x4
           \<and> task_status x4 = task_status s0
           \<and> length (launched x4) = length (launched s0) + 4
           \<and> printed x4 = printed s0 \<and> clock x4 = clock s0"
    unfolding analyze_logs_try_def sc by (simp add: Let_def write_report_def assms(2))
  then obtain x4 where tr: "analyze_logs_try popen strptime c editor s0 = Inr x4"
    and t4: "task_status x4 = task_status s0" "length (launched x4) = length (launched s0) + 4"
      "printed x4 = printed s0" "clock x4 = clock s0"
    by blast
  have "analyze_logs popen strptime c editor s =
          output_line (''Finished analyzing '' @ name c @ '' logs'')
            (set_status (analysis_title c) FINISHED x4)"
    by (simp add: analyze_logs_def s0_def [symmetric] tr)
  then show ?thesis
    using t4 by (simp add: s0_def output_line_def)
qed

subsection \<open>Start requests and the check of the table\<close>

text \<open>
  Claim C2, amended. For the backup task and the post-backup task of a configuration:
  when the handler of the start request, at its check of the table, reads the task as
  \<open>RUNNING\<close> or \<open>CANCEL_REQUESTED\<close>, it only logs and publishes the message that the
  task is already running and is skipped; it launches no process, reads from none,
  assigns no status, and leaves the files and the input queue alone. \<^verbatim>\<open>run_backup\<close>
  makes the check as its first statement, in the state \<open>s\<close>; \<^verbatim>\<open>run_post_backup\<close> makes
  it after the ten seconds of a scheduled request, whatever other threads assign
  meanwhile. The check is made by the handler, in the worker thread: the dispatch loop
  starts that thread for every such request without reading the table.
\<close>

theorem start_skipped_when_check_reads_active:
  "(is_active (status_of (task_status s) (backup_title c)) \<longrightarrow>
      run_backup popen c b s = output_line (backup_title c @ '' is already running, skipping'') s
      \<and> launched (run_backup popen c b s) = launched s
      \<and> piped (run_backup popen c b s) = piped s
      \<and> task_status (run_backup popen c b s) = task_status s
      \<and> files (run_backup popen c b s) = files s
      \<and> input_queue (run_backup popen c b s) = input_queue s
      \<and> (\<exists>ic. output_queue (run_backup popen c b s) = output_queue s @
            [UpdateSystray (Some (backup_title c @ '' is already running, skipping'')) ic]))
   \<and> (is_active (status_of (task_status (at_first_check g b s)) (post_backup_title c)) \<longrightarrow>
      run_post_backup_among g popen c b s =
        output_line (post_backup_title c @ '' is already running, skipping'') (at_first_check g b s)
      \<and> launched (run_post_backup_among g popen c b s) = launched s
      \<and> piped (run_post_backup_among g popen c b s) = piped s
      \<and> task_status (run_post_backup_among g popen c b s) = task_status (at_first_check g b s)
      \<and> files (run_post_backup_among g popen c b s) = files s
      \<and> input_queue (run_post_backup_among g popen c b s) = input_queue s
      \<and> (\<exists>ic. output_queue (run_post_backup_among g popen c b s) = output_queue s @
            [UpdateSystray (Some (post_backup_title c @ '' is already running, skipping'')) ic]))
   \<and> dispatch (StartBackup c b) s = Inr (False, s\<lparr>threads := threads s @ [StartBackup c b]\<rparr>)
   \<and> dispatch (StartPostBackup c b) s = Inr (False, s\<lparr>threads := threads s @ [StartPostBackup c b]\<rparr>)"
proof -
  have A: "run_backup popen c b s = output_line (backup_title c @ '' is already running, skipping'') s
      \<and> launched (run_backup popen c b s) = launched s
      \<and> piped (run_backup popen c b s) = piped s
      \<and> task_status (run_backup popen c b s) = task_status s
      \<and> files (run_backup popen c b s) = files s
      \<and> input_queue (run_backup popen c b s) = input_queue s
      \<and> (\<exists>ic. output_queue (run_backup popen c b s) = output_queue s @
            [UpdateSystray (Some (backup_title c @ '' is already running, skipping'')) ic])"
    if act: "is_active (status_of (task_status s) (backup_title c))"
    using output_line_queue [of "backup_title c @ '' is already running, skipping''" s]
    by (simp add: run_backup_active [OF act])
  have B: "run_post_backup_among g popen c b s =
        output_line (post_backup_title c @ '' is already running, skipping'') (at_first_check g b s)
      \<and> launched (run_post_backup_among g popen c b s) = launched s
      \<and> piped (run_post_backup_among g popen c b s) = piped s
      \<and> task_status (run_post_backup_among g popen c b s) = task_status (at_first_check g b s)
      \<and> files (run_post_backup_among g popen c b s) = files s
      \<and> input_queue (run_post_backup_among g popen c b s) = input_queue s
      \<and> (\<exists>ic. output_queue (run_post_backup_among g popen c b s) = output_queue s @
            [UpdateSystray (Some (post_backup_title c @ '' is already running, skipping'')) ic])"
    if act: "is_active (status_of (task_status (at_first_check g b s)) (post_backup_title c))"
    using output_line_queue [of "post_backup_title c @ '' is already running, skipping''"
        "at_first_check g b s"]
    by (simp add: among_skip [OF act])
  have C: "dispatch (StartBackup c b) s = Inr (False, s\<lparr>threads := threads s @ [StartBackup c b]\<rparr>)"
    "dispatch (StartPostBackup c b) s = Inr (False, s\<lparr>threads := threads s @ [StartPostBackup c b]\<rparr>)"
    by (simp_all add: dispatch_def)
  from A B C show ?thesis by blast
qed

text \<open>
  The backup of Alpha is running; its post-backup task is being cancelled when a
  scheduled request for it is handled.
\<close>

theorem start_skipped_when_check_reads_active_witness:
  "launched (run_backup (\<lambda>c. Inr (three_lines 0)) alpha False backup_running) = []
   \<and> task_status (run_backup (\<lambda>c. Inr (three_lines 0)) alpha False backup_running) = [(''Alpha backup'', RUNNING)]
   \<and> launched (run_post_backup_among no_gaps (\<lambda>c. Inr (three_lines 0)) alpha True post_backup_cancelling) = []
   \<and> task_status (run_post_backup_among no_gaps (\<lambda>c. Inr (three_lines 0)) alpha True post_backup_cancelling)
       = [(''Alpha post-backup'', CANCEL_REQUESTED)]"
proof -
  have a: "is_active (status_of (task_status backup_running) (backup_title alpha))"
    by (simp add: backup_running_def init_state_def alpha_titles is_active_def status_of_def)
  have f: "task_status (at_first_check no_gaps True post_backup_cancelling)
             = [(''Alpha post-backup'', CANCEL_REQUESTED)]"
    by (simp add: at_first_check_def no_gaps_def post_backup_cancelling_def init_state_def)
  have b: "is_active (status_of (task_status (at_first_check no_gaps True post_backup_cancelling))
             (post_backup_title alpha))"
    by (simp add: f alpha_titles is_active_def status_of_def)
  from start_skipped_when_check_reads_active [where s = backup_running and c = alpha
      and popen = "\<lambda>c. Inr (three_lines 0)" and b = False] a
  have "launched (run_backup (\<lambda>c. Inr (three_lines 0)) alpha False backup_running) = launched backup_running
      \<and> task_status (run_backup (\<lambda>c. Inr (three_lines 0)) alpha False backup_running) = task_status backup_running"
    by blast
  moreover from start_skipped_when_check_reads_active [where s = post_backup_cancelling and c = alpha
      and popen = "\<lambda>c. Inr (three_lines 0)" and b = True and g = no_gaps] b
  have "launched (run_post_backup_among no_gaps (\<lambda>c. Inr (three_lines 0)) alpha True post_backup_cancelling)
          = launched post_backup_cancelling
      \<and> task_status (run_post_backup_among no_gaps (\<lambda>c. Inr (three_lines 0)) alpha True post_backup_cancelling)
          = task_status (at_first_check no_gaps True post_backup_cancelling)"
    by blast
  ultimately show ?thesis
    by (simp add: f) (simp add: backup_running_def post_backup_cancelling_def init_state_def)
qed

text \<open>
  Against claim C2 as stated. First: the analysis of Alpha is \<open>RUNNING\<close> when another
  \<^verbatim>\<open>AnalyzeLogs\<close> request for Alpha is handled; the handler makes no check, starts the
  editor on its four reports, publishes no message about skipping and leaves the task
  \<open>FINISHED\<close>. Second: the dispatch loop starts a worker for \<^verbatim>\<open>StartBackup\<close> while the
  backup is \<open>RUNNING\<close>; the table is only read inside that worker. Third: two workers
  for the backup of Alpha both read the task as not active before either has set it
  \<open>RUNNING\<close>, and each starts a process of its own: two processes of the one task, both
  started and neither read from yet.
\<close>

theorem start_checks_do_not_exclude:
  "is_active (status_of (task_status analysis_running) (analysis_title alpha))
   \<and> status_of (task_status (analyze_logs (\<lambda>c. Inr (three_lines 0)) (\<lambda>x. None) alpha ''notepad.exe''
                               analysis_running)) (analysis_title alpha) = FINISHED
   \<and> length (launched (analyze_logs (\<lambda>c. Inr (three_lines 0)) (\<lambda>x. None) alpha ''notepad.exe''
                         analysis_running)) = 4
   \<and> printed (analyze_logs (\<lambda>c. Inr (three_lines 0)) (\<lambda>x. None) alpha ''notepad.exe'' analysis_running)
       = [(0, ''Finished analyzing Alpha logs'')]
   \<and> is_active (status_of (task_status backup_running) (backup_title alpha))
   \<and> dispatch (StartBackup alpha False) backup_running =
       Inr (False, backup_running\<lparr>threads := [StartBackup alpha False]\<rparr>)
   \<and> (case two_backup_workers (\<lambda>c. Inr (three_lines 0)) alpha init_state of
         None \<Rightarrow> False
       | Some ((process1, process2), x) \<Rightarrow>
           process1 = three_lines 0 \<and> process2 = three_lines 0
           \<and> launched x = [backup_command alpha, backup_command alpha] \<and> piped x = [])"
proof -
  have t: "analysis_title alpha = ''Alpha analysis''"
    by (simp add: analysis_title_def alpha_def)
  have a1: "is_active (status_of (task_status analysis_running) (analysis_title alpha))"
    by (simp add: analysis_running_def init_state_def t is_active_def status_of_def)
  have nolog: "files analysis_running (str_path (log_file alpha)) = None"
    by (simp add: analysis_running_def init_state_def)
  have always: "\<forall>cmd. (\<lambda>c. Inr (three_lines 0)) cmd = (Inr (three_lines 0) :: exn + proc)"
    by simp
  from analyze_logs_no_log [where popen = "\<lambda>c. Inr (three_lines 0)", OF nolog always,
      of "\<lambda>x. None" "''notepad.exe''"]
  have a2: "status_of (task_status (analyze_logs (\<lambda>c. Inr (three_lines 0)) (\<lambda>x. None) alpha ''notepad.exe''
                               analysis_running)) (analysis_title alpha) = FINISHED"
    and a3: "length (launched (analyze_logs (\<lambda>c. Inr (three_lines 0)) (\<lambda>x. None) alpha ''notepad.exe''
                         analysis_running)) = 4"
    and a4: "printed (analyze_logs (\<lambda>c. Inr (three_lines 0)) (\<lambda>x. None) alpha ''notepad.exe''
               analysis_running) = [(0, ''Finished analyzing Alpha logs'')]"
    by (simp_all add: analysis_running_def init_state_def alpha_def)
  have b1: "is_active (status_of (task_status backup_running) (backup_title alpha))"
    by (simp add: backup_running_def init_state_def alpha_titles is_active_def status_of_def)
  have b2: "dispatch (StartBackup alpha False) backup_running =
       Inr (False, backup_running\<lparr>threads := [StartBackup alpha False]\<rparr>)"
    by (simp add: dispatch_def backup_running_def init_state_def)
  have e: "files init_state = Map.empty" by (simp add: init_state_def)
  have p: "(\<lambda>c. Inr (three_lines 0)) (backup_command alpha) = (Inr (three_lines 0) :: exn + proc)"
    by simp
  from two_backup_workers_both_start [where popen = "\<lambda>c. Inr (three_lines 0)",
      OF alpha_first_backup(1) e p]
  obtain x where "two_backup_workers (\<lambda>c. Inr (three_lines 0)) alpha init_state
        = Some ((three_lines 0, three_lines 0), x)"
    and "launched x = launched init_state @ [backup_command alpha, backup_command alpha]"
    and "piped x = piped init_state"
    by blast
  then have c: "(case two_backup_workers (\<lambda>c. Inr (three_lines 0)) alpha init_state of
         None \<Rightarrow> False
       | Some ((process1, process2), x) \<Rightarrow>
           process1 = three_lines 0 \<and> process2 = three_lines 0
           \<and> launched x = [backup_command alpha, backup_command alpha] \<and> piped x = [])"
    by (simp add: init_state_def)
  from a1 a2 a3 a4 b1 b2 c show ?thesis by blast
qed

end
